theory Spec2Isabelle
  imports Main "HOL-Library.AList"
begin

section \<open>Strings\<close>

text \<open>
  A JavaScript string is a sequence of UTF-16 code units. The model uses \<^typ>\<open>string\<close>
  and reads each \<^typ>\<open>char\<close> as the code unit with the same number, so it covers the
  strings whose code units lie in U+0000..U+00FF. \<open>String.prototype.trim\<close> and the regular
  expression class \<open>\s\<close> remove or match the same characters; in this range they are
  TAB, LF, VT, FF, CR, SPACE and NO-BREAK SPACE.
\<close>

definition isWhiteSpaceChar :: "char \<Rightarrow> bool" where
  "isWhiteSpaceChar c =
     (c \<in> set [CHR 0x09, CHR 0x0A, CHR 0x0B, CHR 0x0C, CHR 0x0D, CHR 0x20, CHR 0xA0])"

definition trim :: "string \<Rightarrow> string" where
  "trim s = rev (dropWhile isWhiteSpaceChar (rev (dropWhile isWhiteSpaceChar s)))"

definition upperCaseChars :: "char list" where
  "upperCaseChars = ''ABCDEFGHIJKLMNOPQRSTUVWXYZ'' @
     [CHR 0xC0, CHR 0xC1, CHR 0xC2, CHR 0xC3, CHR 0xC4, CHR 0xC5, CHR 0xC6, CHR 0xC7,
      CHR 0xC8, CHR 0xC9, CHR 0xCA, CHR 0xCB, CHR 0xCC, CHR 0xCD, CHR 0xCE, CHR 0xCF,
      CHR 0xD0, CHR 0xD1, CHR 0xD2, CHR 0xD3, CHR 0xD4, CHR 0xD5, CHR 0xD6, CHR 0xD8,
      CHR 0xD9, CHR 0xDA, CHR 0xDB, CHR 0xDC, CHR 0xDD, CHR 0xDE]"

definition lowerCaseChars :: "char list" where
  "lowerCaseChars = ''abcdefghijklmnopqrstuvwxyz'' @
     [CHR 0xE0, CHR 0xE1, CHR 0xE2, CHR 0xE3, CHR 0xE4, CHR 0xE5, CHR 0xE6, CHR 0xE7,
      CHR 0xE8, CHR 0xE9, CHR 0xEA, CHR 0xEB, CHR 0xEC, CHR 0xED, CHR 0xEE, CHR 0xEF,
      CHR 0xF0, CHR 0xF1, CHR 0xF2, CHR 0xF3, CHR 0xF4, CHR 0xF5, CHR 0xF6, CHR 0xF8,
      CHR 0xF9, CHR 0xFA, CHR 0xFB, CHR 0xFC, CHR 0xFD, CHR 0xFE]"

definition lowerChar :: "char \<Rightarrow> char" where
  "lowerChar c = (case map_of (zip upperCaseChars lowerCaseChars) c of
                    Some l \<Rightarrow> l
                  | None \<Rightarrow> c)"

definition toLowerCase :: "string \<Rightarrow> string" where
  "toLowerCase s = map lowerChar s"

text \<open>\<open>text.trim().length === 0\<close>\<close>

definition isWhitespaceOnly :: "string \<Rightarrow> bool" where
  "isWhitespaceOnly t = (trim t = [])"

section \<open>The source tree\<close>

text \<open>
  A DOM node is an element, a text node, or a node of another type (a comment, say), which
  the generator skips. Every node carries its identity, \<open>nodeRef\<close>: two elements with the
  same tag and attributes are still two objects. Attributes are an association list in
  document order.
\<close>

datatype node =
    Element (nodeRef: nat) (nodeTagName: string) (attributes: "(string \<times> string) list")
            (childNodes: "node list")
  | Text (nodeRef: nat) (nodeData: string)
  | OtherNode (nodeRef: nat)

definition getAttribute :: "node \<Rightarrow> string \<Rightarrow> string option" where
  "getAttribute el name = (case el of
       Element r t as kids \<Rightarrow> map_of as name
     | _ \<Rightarrow> None)"

section \<open>Display resolver (styleResolver.ts)\<close>

text \<open>
  The union type \<open>DisplayType\<close>. The last constructor is not a member of the union: it
  stands for the value found on \<open>Object.prototype\<close> when one of the two lookup tables
  below, which are plain object literals, is indexed with the name of an inherited property
  (\<open>displayMap['constructor']\<close> is the function \<open>Object\<close>).
\<close>

datatype DisplayType =
    Block | Inline | InlineBlock | Flex | InlineFlex | Grid | InlineGrid | ListItem
  | DisplayNone | Contents
  | Table | InlineTable | TableRow | TableCell | TableHeaderGroup | TableFooterGroup
  | TableRowGroup | TableColumn | TableColumnGroup | TableCaption
  | Ruby | RubyBase | RubyText | RubyBaseContainer | RubyTextContainer
  | ProtoValue string

definition displayMap :: "(string \<times> DisplayType) list" where
  "displayMap =
    [(''block'', Block), (''inline'', Inline), (''inline-block'', InlineBlock),
     (''flex'', Flex), (''inline-flex'', InlineFlex), (''grid'', Grid),
     (''inline-grid'', InlineGrid), (''list-item'', ListItem), (''none'', DisplayNone),
     (''contents'', Contents), (''table'', Table), (''inline-table'', InlineTable),
     (''table-row'', TableRow), (''table-cell'', TableCell),
     (''table-header-group'', TableHeaderGroup), (''table-footer-group'', TableFooterGroup),
     (''table-row-group'', TableRowGroup), (''table-column'', TableColumn),
     (''table-column-group'', TableColumnGroup), (''table-caption'', TableCaption),
     (''ruby'', Ruby), (''ruby-base'', RubyBase), (''ruby-text'', RubyText),
     (''ruby-base-container'', RubyBaseContainer),
     (''ruby-text-container'', RubyTextContainer)]"

definition DEFAULT_DISPLAY_TYPES :: "(string \<times> DisplayType) list" where
  "DEFAULT_DISPLAY_TYPES =
    [(''div'', Block), (''p'', Block), (''section'', Block), (''article'', Block),
     (''header'', Block), (''footer'', Block), (''nav'', Block), (''aside'', Block),
     (''main'', Block), (''h1'', Block), (''h2'', Block), (''h3'', Block), (''h4'', Block),
     (''h5'', Block), (''h6'', Block), (''ul'', Block), (''ol'', Block), (''li'', ListItem),
     (''dl'', Block), (''dt'', Block), (''dd'', Block), (''blockquote'', Block),
     (''pre'', Block), (''hr'', Block), (''address'', Block), (''fieldset'', Block),
     (''legend'', Block), (''table'', Table), (''thead'', TableHeaderGroup),
     (''tbody'', TableRowGroup), (''tfoot'', TableFooterGroup), (''tr'', TableRow),
     (''td'', TableCell), (''th'', TableCell), (''col'', TableColumn),
     (''colgroup'', TableColumnGroup), (''caption'', TableCaption),
     (''span'', Inline), (''a'', Inline), (''em'', Inline), (''strong'', Inline),
     (''i'', Inline), (''b'', Inline), (''u'', Inline), (''small'', Inline),
     (''sub'', Inline), (''sup'', Inline), (''code'', Inline), (''kbd'', Inline),
     (''samp'', Inline), (''var'', Inline), (''mark'', Inline), (''time'', Inline),
     (''abbr'', Inline), (''acronym'', Inline), (''dfn'', Inline), (''cite'', Inline),
     (''q'', Inline),
     (''img'', Inline), (''input'', Inline), (''button'', Inline), (''select'', Inline),
     (''textarea'', Inline), (''iframe'', Inline), (''object'', Inline), (''embed'', Inline),
     (''video'', Inline), (''audio'', Inline), (''canvas'', Inline),
     (''br'', Inline), (''wbr'', Inline)]"

text \<open>
  \<open>obj[key]\<close> on an object literal: the own property if there is one, otherwise the
  property of that name on \<open>Object.prototype\<close>, otherwise \<open>undefined\<close>. The inherited
  values are functions or objects, hence truthy, so \<open>obj[key] || null\<close> keeps them.
\<close>

definition objectPrototypeKeys :: "string list" where
  "objectPrototypeKeys =
    [''constructor'', ''__defineGetter__'', ''__defineSetter__'', ''hasOwnProperty'',
     ''__lookupGetter__'', ''__lookupSetter__'', ''isPrototypeOf'',
     ''propertyIsEnumerable'', ''toString'', ''valueOf'', ''__proto__'',
     ''toLocaleString'']"

definition getProperty :: "(string \<times> DisplayType) list \<Rightarrow> string \<Rightarrow> DisplayType option" where
  "getProperty obj key = (case map_of obj key of
       Some v \<Rightarrow> Some v
     | None \<Rightarrow> if key \<in> set objectPrototypeKeys then Some (ProtoValue key) else None)"

text \<open>
  \<open>styleAttr.match(/display\s*:\s*([^;]+)/i)\<close>. \<open>matchDisplayAt\<close> tries the pattern at
  the head of the string and returns capture group 1. After the letters and the colon the
  greedy \<open>\s*\<close> takes every white-space character; if nothing but \<open>;\<close> or the end
  follows, the matcher backtracks one character and the group captures the last white-space
  character. With the \<open>i\<close> flag and no \<open>u\<close> flag, a code unit matches a letter of
  \<open>display\<close> exactly when it is that ASCII letter in either case. \<open>displayMatch\<close> is the
  leftmost match.
\<close>

definition matchDisplayAt :: "string \<Rightarrow> string option" where
  "matchDisplayAt s =
     (if toLowerCase (take 7 s) = ''display'' then
        (case dropWhile isWhiteSpaceChar (drop 7 s) of
           [] \<Rightarrow> None
         | c # r \<Rightarrow>
             if c = CHR '':'' then
               (let ws = takeWhile isWhiteSpaceChar r;
                    cap = takeWhile (\<lambda>x. x \<noteq> CHR '';'') (dropWhile isWhiteSpaceChar r)
                in if cap \<noteq> [] then Some cap
                   else if ws \<noteq> [] then Some [last ws]
                   else None)
             else None)
      else None)"

fun displayMatch :: "string \<Rightarrow> string option" where
  "displayMatch [] = matchDisplayAt []"
| "displayMatch (c # s) = (case matchDisplayAt (c # s) of
       Some cap \<Rightarrow> Some cap
     | None \<Rightarrow> displayMatch s)"

definition getDisplayFromStyle :: "string option \<Rightarrow> DisplayType option" where
  "getDisplayFromStyle styleAttr = (case styleAttr of
       None \<Rightarrow> None
     | Some s \<Rightarrow>
         if s = [] then None
         else (case displayMatch s of
                 None \<Rightarrow> None
               | Some cap \<Rightarrow> getProperty displayMap (toLowerCase (trim cap))))"

definition getComputedDisplayType :: "node \<Rightarrow> DisplayType" where
  "getComputedDisplayType el =
     (case getDisplayFromStyle (getAttribute el ''style'') of
        Some styleDisplay \<Rightarrow> styleDisplay
      | None \<Rightarrow>
          (case getProperty DEFAULT_DISPLAY_TYPES (toLowerCase (nodeTagName el)) of
             Some d \<Rightarrow> d
           | None \<Rightarrow> Block))"

definition generatesBox :: "DisplayType \<Rightarrow> bool" where
  "generatesBox d = (d \<noteq> DisplayNone)"

definition isContents :: "DisplayType \<Rightarrow> bool" where
  "isContents d = (d = Contents)"

definition isBlockLevel :: "DisplayType \<Rightarrow> bool" where
  "isBlockLevel d = (d \<in> set [Block, Flex, Grid, ListItem, Table, TableCaption,
     TableHeaderGroup, TableFooterGroup, TableRowGroup, TableColumnGroup, TableColumn,
     TableRow, TableCell])"

definition isInlineLevel :: "DisplayType \<Rightarrow> bool" where
  "isInlineLevel d = (d \<in> set [Inline, InlineBlock, InlineFlex, InlineGrid, InlineTable,
     Ruby, RubyBase, RubyText, RubyBaseContainer, RubyTextContainer])"

text \<open>
  The arrays of the next two predicates also list \<open>'flow-root'\<close>, a string that is no
  member of \<open>DisplayType\<close> and that neither table produces; it never equals the argument.
\<close>

definition establishesBlockFormattingContext :: "DisplayType \<Rightarrow> bool" where
  "establishesBlockFormattingContext d = (d \<in> set [InlineBlock, Flex, InlineFlex, Grid,
     InlineGrid, Table, InlineTable, TableCell, TableCaption])"

definition blockifiesChildren :: "DisplayType \<Rightarrow> bool" where
  "blockifiesChildren d = (d \<in> set [Flex, InlineFlex, Grid, InlineGrid])"

definition isBlockContainer :: "DisplayType \<Rightarrow> bool" where
  "isBlockContainer d = (d \<in> set [Block, InlineBlock, TableCell, ListItem])"

section \<open>Box records (types.ts, boxTreeGenerator.ts)\<close>

datatype BoxType =
    BoxBlock | BoxInline | BoxInlineBlock | FlexContainer | FlexItem | GridContainer
  | GridItem | BoxListItem | ListMarker | AnonymousBlock | AnonymousInline
  | AnonymousFlexItem | AnonymousGridItem | BoxNone

text \<open>
  \<open>element\<close> and \<open>textNode\<close> are references to source nodes, held as the node's
  \<open>nodeRef\<close>; the other fields are copies made when the box is created.
\<close>

datatype BoxNode = BoxNode
  (boxId: string) (boxType: BoxType) (displayType: "DisplayType option")
  (element: "nat option") (textContent: "string option") (tagName: "string option")
  (className: "string option") (style: "string option") (children: "BoxNode list")
  (isAnonymous: bool) (isEmpty: bool) (textNode: "nat option")

text \<open>The assignment \<open>box.children = cs\<close>.\<close>

fun setChildren :: "BoxNode \<Rightarrow> BoxNode list \<Rightarrow> BoxNode" where
  "setChildren (BoxNode i bt d e tc tg cl st ch an em tn) cs =
     BoxNode i bt d e tc tg cl st cs an em tn"

text \<open>The decimal digits of a number, as a template literal prints it.\<close>

fun stringOfNat :: "nat \<Rightarrow> string" where
  "stringOfNat n =
     (if n < 10 then [''0123456789'' ! n]
      else stringOfNat (n div 10) @ [''0123456789'' ! (n mod 10)])"

declare stringOfNat.simps [simp del]

text \<open>
  \<open>generateId\<close> increments the module-level \<open>nodeIdCounter\<close> and returns
  \<open>box-<counter>\<close>. Every function that creates a box takes the counter and returns it
  updated.
\<close>

definition generateId :: "nat \<Rightarrow> string \<times> nat" where
  "generateId c = (''box-'' @ stringOfNat (Suc c), Suc c)"

definition createAnonymousBlockBox :: "nat \<Rightarrow> BoxNode \<times> nat" where
  "createAnonymousBlockBox c = (case generateId c of (i, c') \<Rightarrow>
     (BoxNode i AnonymousBlock None None None None None None [] True False None, c'))"

definition createAnonymousInlineBox :: "string \<Rightarrow> nat \<Rightarrow> nat \<Rightarrow> BoxNode \<times> nat" where
  "createAnonymousInlineBox text textRef c = (case generateId c of (i, c') \<Rightarrow>
     (BoxNode i AnonymousInline None None (Some text) None None None [] True
        (trim text = []) (Some textRef), c'))"

definition createAnonymousFlexItem :: "string \<Rightarrow> nat \<Rightarrow> nat \<Rightarrow> BoxNode \<times> nat" where
  "createAnonymousFlexItem text textRef c = (case generateId c of (i, c') \<Rightarrow>
     (BoxNode i AnonymousFlexItem None None (Some text) None None None [] True
        (trim text = []) (Some textRef), c'))"

definition createAnonymousGridItem :: "string \<Rightarrow> nat \<Rightarrow> nat \<Rightarrow> BoxNode \<times> nat" where
  "createAnonymousGridItem text textRef c = (case generateId c of (i, c') \<Rightarrow>
     (BoxNode i AnonymousGridItem None None (Some text) None None None [] True
        (trim text = []) (Some textRef), c'))"

definition getBoxTypeFromDisplay :: "DisplayType \<Rightarrow> bool \<Rightarrow> BoxType" where
  "getBoxTypeFromDisplay d isListItem =
     (if isListItem then BoxListItem
      else (case d of
              Block \<Rightarrow> BoxBlock
            | Inline \<Rightarrow> BoxInline
            | InlineBlock \<Rightarrow> BoxInlineBlock
            | Flex \<Rightarrow> FlexContainer
            | InlineFlex \<Rightarrow> FlexContainer
            | Grid \<Rightarrow> GridContainer
            | InlineGrid \<Rightarrow> GridContainer
            | _ \<Rightarrow> BoxBlock))"

text \<open>DOM accessors used by \<open>createBoxFromElement\<close>.\<close>

fun isElementNode :: "node \<Rightarrow> bool" where
  "isElementNode (Element r t ats kids) = True"
| "isElementNode _ = False"

fun nodeChildNodes :: "node \<Rightarrow> node list" where
  "nodeChildNodes (Element r t ats kids) = kids"
| "nodeChildNodes _ = []"

definition elementChildren :: "node \<Rightarrow> node list" where
  "elementChildren el = filter isElementNode (nodeChildNodes el)"

fun nodeTextContent :: "node \<Rightarrow> string" where
  "nodeTextContent (Element r t ats kids) = concat (map nodeTextContent kids)"
| "nodeTextContent (Text r s) = s"
| "nodeTextContent (OtherNode r) = []"

definition elementClassName :: "node \<Rightarrow> string" where
  "elementClassName el = (case getAttribute el ''class'' of Some v \<Rightarrow> v | None \<Rightarrow> [])"

text \<open>\<open>s || null\<close> for a string or null \<open>s\<close>: the empty string is falsy.\<close>

definition orNull :: "string option \<Rightarrow> string option" where
  "orNull s = (case s of Some v \<Rightarrow> (if v = [] then None else Some v) | None \<Rightarrow> None)"

definition parentIsGrid :: "DisplayType \<Rightarrow> bool" where
  "parentIsGrid p = (p = Grid \<or> p = InlineGrid)"

definition createBoxFromElement ::
    "node \<Rightarrow> DisplayType \<Rightarrow> bool \<Rightarrow> DisplayType option \<Rightarrow> nat \<Rightarrow> BoxNode \<times> nat" where
  "createBoxFromElement el d parentBlockifies parentDisplayType c =
     (let isListItem = (d = ListItem);
          boxType0 = getBoxTypeFromDisplay d isListItem;
          boxType1 = (case parentDisplayType of
                        Some p \<Rightarrow>
                          if parentBlockifies then
                            (if d = Flex \<or> d = InlineFlex then
                               (if parentIsGrid p then GridItem else FlexItem)
                             else if d = Grid \<or> d = InlineGrid then
                               (if parentIsGrid p then GridItem else FlexItem)
                             else (if parentIsGrid p then GridItem else FlexItem))
                          else boxType0
                      | None \<Rightarrow> boxType0)
      in case generateId c of (i, c') \<Rightarrow>
        (BoxNode i boxType1 (Some d) (Some (nodeRef el)) None
           (Some (toLowerCase (nodeTagName el)))
           (orNull (Some (elementClassName el)))
           (orNull (getAttribute el ''style''))
           [] False
           (elementChildren el = [] \<and> trim (nodeTextContent el) = [])
           None, c'))"

text \<open>
  \<open>hasBlockLevelChildren\<close>, as a walk over the child node list of the element; the
  recursive call of the source is the call on \<open>kids\<close>.
\<close>

fun hasBlockLevelChildNodes :: "node list \<Rightarrow> bool" where
  "hasBlockLevelChildNodes [] = False"
| "hasBlockLevelChildNodes (Element r t ats kids # ns) =
     (let d = getComputedDisplayType (Element r t ats kids) in
      if \<not> generatesBox d \<or> isContents d then hasBlockLevelChildNodes ns
      else if isBlockLevel d then True
      else if establishesBlockFormattingContext d then hasBlockLevelChildNodes ns
      else if isInlineLevel d \<and> hasBlockLevelChildNodes kids then True
      else hasBlockLevelChildNodes ns)"
| "hasBlockLevelChildNodes (n # ns) = hasBlockLevelChildNodes ns"

definition hasBlockLevelChildren :: "node \<Rightarrow> bool" where
  "hasBlockLevelChildren el = hasBlockLevelChildNodes (nodeChildNodes el)"

section \<open>Box tree generator (boxTreeGenerator.ts)\<close>

text \<open>The three flags that \<open>processChildren\<close> derives from \<open>parentDisplayType\<close>.\<close>

definition parentBlockifiesOf :: "DisplayType option \<Rightarrow> bool" where
  "parentBlockifiesOf pdt = (case pdt of Some p \<Rightarrow> blockifiesChildren p | None \<Rightarrow> False)"

definition parentIsBlockLevelOf :: "DisplayType option \<Rightarrow> bool" where
  "parentIsBlockLevelOf pdt = (case pdt of Some p \<Rightarrow> isBlockLevel p | None \<Rightarrow> True)"

definition parentEstablishesBFCOf :: "DisplayType option \<Rightarrow> bool" where
  "parentEstablishesBFCOf pdt =
     (case pdt of Some p \<Rightarrow> establishesBlockFormattingContext p | None \<Rightarrow> False)"

definition isParentBlockContainerOf :: "DisplayType option \<Rightarrow> bool" where
  "isParentBlockContainerOf pdt = (case pdt of Some p \<Rightarrow> isBlockContainer p | None \<Rightarrow> False)"

text \<open>The anonymous box made for a text node in \<open>processChildren\<close>.\<close>

definition createTextBox :: "DisplayType option \<Rightarrow> string \<Rightarrow> nat \<Rightarrow> nat \<Rightarrow> BoxNode \<times> nat" where
  "createTextBox pdt text textRef c =
     (case pdt of
        Some p \<Rightarrow>
          if blockifiesChildren p then
            (if parentIsGrid p then createAnonymousGridItem text textRef c
             else createAnonymousFlexItem text textRef c)
          else createAnonymousInlineBox text textRef c
      | None \<Rightarrow> createAnonymousInlineBox text textRef c)"

text \<open>
  \<open>wrapInlineInAnonymousBlocks\<close>: the loop state is \<open>result\<close> and
  \<open>currentAnonymousBlock\<close>. The anonymous block takes its id when its first inline child
  arrives.
\<close>

definition isInlineBoxType :: "BoxType \<Rightarrow> bool" where
  "isInlineBoxType bt = (bt = BoxInline \<or> bt = BoxInlineBlock \<or> bt = AnonymousInline)"

definition isBlockBoxType :: "BoxType \<Rightarrow> bool" where
  "isBlockBoxType bt =
     (bt = BoxBlock \<or> bt = FlexContainer \<or> bt = GridContainer \<or> bt = BoxListItem)"

fun wrapLoop :: "BoxNode list \<Rightarrow> BoxNode list \<Rightarrow> BoxNode option \<Rightarrow> nat \<Rightarrow> BoxNode list \<times> nat" where
  "wrapLoop [] result cur c =
     (case cur of Some ab \<Rightarrow> (result @ [ab], c) | None \<Rightarrow> (result, c))"
| "wrapLoop (child # cs) result cur c =
     (if isInlineBoxType (boxType child) then
        (case cur of
           None \<Rightarrow> (case createAnonymousBlockBox c of (ab, c1) \<Rightarrow>
                      wrapLoop cs result (Some (setChildren ab (children ab @ [child]))) c1)
         | Some ab \<Rightarrow> wrapLoop cs result (Some (setChildren ab (children ab @ [child]))) c)
      else if isBlockBoxType (boxType child) then
        (case cur of
           Some ab \<Rightarrow> wrapLoop cs (result @ [ab, child]) None c
         | None \<Rightarrow> wrapLoop cs (result @ [child]) None c)
      else
        (case cur of
           Some ab \<Rightarrow> wrapLoop cs (result @ [ab, child]) None c
         | None \<Rightarrow> wrapLoop cs (result @ [child]) None c))"

definition wrapInlineInAnonymousBlocks :: "BoxNode list \<Rightarrow> nat \<Rightarrow> BoxNode list \<times> nat" where
  "wrapInlineInAnonymousBlocks cs c = wrapLoop cs [] None c"

text \<open>The post-pass at the end of \<open>processChildren\<close>.\<close>

definition isBlockLevelBoxType :: "BoxType \<Rightarrow> bool" where
  "isBlockLevelBoxType bt =
     (bt = BoxBlock \<or> bt = FlexContainer \<or> bt = GridContainer \<or> bt = BoxListItem \<or>
      bt = AnonymousBlock)"

definition wrapPass :: "DisplayType option \<Rightarrow> BoxNode list \<times> nat \<Rightarrow> BoxNode list \<times> nat" where
  "wrapPass pdt r = (case r of (cs, c) \<Rightarrow>
     if isParentBlockContainerOf pdt \<and> \<not> parentBlockifiesOf pdt then
       (if list_ex (\<lambda>child. isBlockLevelBoxType (boxType child)) cs
        then wrapInlineInAnonymousBlocks cs c
        else (cs, c))
     else (cs, c))"

text \<open>
  In \<open>processInlineWithBlockChildren\<close>: closing the current run into an anonymous block,
  and the inner loop that merges the boxes of a nested split.
\<close>

definition closeRun :: "BoxNode list \<Rightarrow> BoxNode list \<Rightarrow> nat \<Rightarrow> BoxNode list \<times> nat" where
  "closeRun result cur c =
     (if cur \<noteq> [] then
        (case createAnonymousBlockBox c of (ab, c1) \<Rightarrow> (result @ [setChildren ab cur], c1))
      else (result, c))"

fun mergeNested ::
    "BoxNode list \<Rightarrow> BoxNode list \<Rightarrow> BoxNode list \<Rightarrow> nat \<Rightarrow> BoxNode list \<times> BoxNode list \<times> nat" where
  "mergeNested [] result cur c = (result, cur, c)"
| "mergeNested (nb # nbs) result cur c =
     (if boxType nb = AnonymousBlock then mergeNested nbs result (cur @ children nb) c
      else (case closeRun result cur c of (result1, c1) \<Rightarrow>
              mergeNested nbs (result1 @ [nb]) [] c1))"

text \<open>
  \<open>processChildren\<close> and \<open>processInlineWithBlockChildren\<close> with their loops over the
  child nodes. \<open>processChildrenLoop\<close> carries \<open>children\<close>, \<open>splitLoop\<close> carries
  \<open>result\<close> and \<open>currentInlineContent\<close>. A node that is not an element has no child
  nodes.
\<close>

function processChildren ::
      "node \<Rightarrow> DisplayType option \<Rightarrow> BoxType option \<Rightarrow> nat \<Rightarrow> BoxNode list \<times> nat"
  and processChildrenLoop ::
      "DisplayType option \<Rightarrow> BoxType option \<Rightarrow> node list \<Rightarrow> BoxNode list \<Rightarrow> nat
         \<Rightarrow> BoxNode list \<times> nat"
  and processInlineWithBlockChildren ::
      "node \<Rightarrow> DisplayType \<Rightarrow> bool \<Rightarrow> nat \<Rightarrow> BoxNode list \<times> nat"
  and splitLoop ::
      "DisplayType \<Rightarrow> bool \<Rightarrow> node list \<Rightarrow> BoxNode list \<Rightarrow> BoxNode list \<Rightarrow> nat
         \<Rightarrow> BoxNode list \<times> BoxNode list \<times> nat"
where
  "processChildren (Element r t ats kids) pdt pbt c =
     wrapPass pdt (processChildrenLoop pdt pbt kids [] c)"
| "processChildren (Text r s) pdt pbt c = wrapPass pdt ([], c)"
| "processChildren (OtherNode r) pdt pbt c = wrapPass pdt ([], c)"
| "processChildrenLoop pdt pbt [] acc c = (acc, c)"
| "processChildrenLoop pdt pbt (Text r text # ns) acc c =
     (if isWhitespaceOnly text \<and> parentIsBlockLevelOf pdt then
        processChildrenLoop pdt pbt ns acc c
      else if trim text \<noteq> [] then
        (case createTextBox pdt text r c of (b, c1) \<Rightarrow>
           processChildrenLoop pdt pbt ns (acc @ [b]) c1)
      else processChildrenLoop pdt pbt ns acc c)"
| "processChildrenLoop pdt pbt (Element r t ats kids # ns) acc c =
     (let d = getComputedDisplayType (Element r t ats kids) in
      if \<not> generatesBox d then processChildrenLoop pdt pbt ns acc c
      else if isContents d then
        (case processChildren (Element r t ats kids) pdt pbt c of (contentsChildren, c1) \<Rightarrow>
           processChildrenLoop pdt pbt ns (acc @ contentsChildren) c1)
      else if isInlineLevel d \<and> \<not> parentEstablishesBFCOf pdt \<and>
              hasBlockLevelChildren (Element r t ats kids) \<and>
              \<not> establishesBlockFormattingContext d then
        (case processInlineWithBlockChildren (Element r t ats kids) d (parentBlockifiesOf pdt) c
         of (splitBoxes, c1) \<Rightarrow> processChildrenLoop pdt pbt ns (acc @ splitBoxes) c1)
      else
        (case createBoxFromElement (Element r t ats kids) d (parentBlockifiesOf pdt) pdt c
         of (box, c1) \<Rightarrow>
           (case processChildren (Element r t ats kids) (Some d) (Some (boxType box)) c1
            of (cs, c2) \<Rightarrow> processChildrenLoop pdt pbt ns (acc @ [setChildren box cs]) c2)))"
| "processChildrenLoop pdt pbt (OtherNode r # ns) acc c = processChildrenLoop pdt pbt ns acc c"
| "processInlineWithBlockChildren (Element r t ats kids) inlineDisplayType parentBlockifies c =
     (case splitLoop inlineDisplayType parentBlockifies kids [] [] c of (result, cur, c1) \<Rightarrow>
        closeRun result cur c1)"
| "processInlineWithBlockChildren (Text r s) inlineDisplayType parentBlockifies c = ([], c)"
| "processInlineWithBlockChildren (OtherNode r) inlineDisplayType parentBlockifies c = ([], c)"
| "splitLoop idt pb [] result cur c = (result, cur, c)"
| "splitLoop idt pb (Text r text # ns) result cur c =
     (if \<not> isWhitespaceOnly text then
        (case createAnonymousInlineBox text r c of (b, c1) \<Rightarrow>
           splitLoop idt pb ns result (cur @ [b]) c1)
      else splitLoop idt pb ns result cur c)"
| "splitLoop idt pb (Element r t ats kids # ns) result cur c =
     (let d = getComputedDisplayType (Element r t ats kids) in
      if \<not> generatesBox d then splitLoop idt pb ns result cur c
      else if isContents d then
        (case processChildren (Element r t ats kids) (Some idt) None c of (contentsChildren, c1) \<Rightarrow>
           splitLoop idt pb ns result (cur @ contentsChildren) c1)
      else if isBlockLevel d then
        (case closeRun result cur c of (result1, c1) \<Rightarrow>
           (case createBoxFromElement (Element r t ats kids) d pb None c1 of (blockBox, c2) \<Rightarrow>
              (case processChildren (Element r t ats kids) (Some d) (Some (boxType blockBox)) c2
               of (cs, c3) \<Rightarrow>
                 splitLoop idt pb ns (result1 @ [setChildren blockBox cs]) [] c3)))
      else if \<not> establishesBlockFormattingContext d \<and>
              hasBlockLevelChildren (Element r t ats kids) then
        (case processInlineWithBlockChildren (Element r t ats kids) d pb c of (nested, c1) \<Rightarrow>
           (case mergeNested nested result cur c1 of (result1, cur1, c2) \<Rightarrow>
              splitLoop idt pb ns result1 cur1 c2))
      else
        (case createBoxFromElement (Element r t ats kids) d pb None c of (inlineBox, c1) \<Rightarrow>
           (case processChildren (Element r t ats kids) (Some d) (Some (boxType inlineBox)) c1
            of (cs, c2) \<Rightarrow> splitLoop idt pb ns result (cur @ [setChildren inlineBox cs]) c2)))"
| "splitLoop idt pb (OtherNode r # ns) result cur c = splitLoop idt pb ns result cur c"

  by pat_completeness auto
termination
  by (relation "measure (\<lambda>x. case x of
        Inl (Inl (n, _)) \<Rightarrow> 2 * size n + 1
      | Inl (Inr (_, _, ns, _)) \<Rightarrow> 2 * size_list size ns
      | Inr (Inl (n, _)) \<Rightarrow> 2 * size n + 1
      | Inr (Inr (_, _, ns, _)) \<Rightarrow> 2 * size_list size ns)") auto

section \<open>Source-to-box map and the effect on the source tree\<close>

text \<open>
  The two JavaScript \<open>Map\<close>s, in insertion order. Keys of the first and members of the
  lists of the second are source nodes, held as their \<open>nodeRef\<close>.
\<close>

record ElementToBoxMap =
  elementToBoxId :: "(nat \<times> string) list"
  boxIdToElements :: "(string \<times> nat list) list"

definition emptyElementMap :: ElementToBoxMap where
  "emptyElementMap = \<lparr>elementToBoxId = [], boxIdToElements = []\<rparr>"

text \<open>
  The three map statements that \<open>buildElementMap\<close> runs for a source node \<open>src\<close> of the
  box with id \<open>i\<close>: set the forward entry unless present, create the reverse list unless
  present, push the node onto it.
\<close>

definition recordSource :: "nat \<Rightarrow> string \<Rightarrow> ElementToBoxMap \<Rightarrow> ElementToBoxMap" where
  "recordSource src i m =
     \<lparr>elementToBoxId =
        (if map_of (elementToBoxId m) src = None then elementToBoxId m @ [(src, i)]
         else elementToBoxId m),
      boxIdToElements =
        AList.map_entry i (\<lambda>xs. xs @ [src])
          (if map_of (boxIdToElements m) i = None then boxIdToElements m @ [(i, [])]
           else boxIdToElements m)\<rparr>"

text \<open>
  \<open>el.setAttribute(name, v)\<close> on the element whose identity is \<open>r\<close>, as an update of
  the tree that holds it: an existing attribute keeps its place, a new one goes last.
\<close>

fun setAttribute :: "nat \<Rightarrow> string \<Rightarrow> string \<Rightarrow> node \<Rightarrow> node" where
  "setAttribute r name v (Element r' t ats kids) =
     Element r' t (if r' = r then AList.update name v ats else ats)
       (map (setAttribute r name v) kids)"
| "setAttribute r name v (Text r' s) = Text r' s"
| "setAttribute r name v (OtherNode r') = OtherNode r'"

text \<open>
  \<open>buildElementMap\<close> mutates the map and, through \<open>node.element\<close>, the source tree; the
  model threads both. This is the walk that runs to its end; \<open>buildElementMapTry\<close> below is
  the walk with its exceptions.
\<close>

fun buildElementMap :: "BoxNode \<Rightarrow> ElementToBoxMap \<times> node \<Rightarrow> ElementToBoxMap \<times> node" where
  "buildElementMap (BoxNode i bt d e tc tg cl st ch an em tn) (m, src) =
     (let (m1, src1) = (case e of
                          Some el \<Rightarrow> (recordSource el i m, setAttribute el ''data-box-id'' i src)
                        | None \<Rightarrow> (m, src));
          m2 = (case tn of Some t \<Rightarrow> recordSource t i m1 | None \<Rightarrow> m1)
      in fold buildElementMap ch (m2, src1))"

section \<open>generateBoxTree and the parser (parser.ts)\<close>

text \<open>
  The browser's \<open>DOMParser\<close> is outside the repository; it is a parameter. It maps the
  HTML text to a document or throws. Of a document the code reads \<open>doc.body\<close> and
  \<open>doc.documentElement\<close>.
\<close>

record Document =
  body :: "node option"
  documentElement :: "node option"

type_synonym DOMParser = "string \<Rightarrow> unit + Document"

definition parseHTML :: "DOMParser \<Rightarrow> string \<Rightarrow> unit + Document" where
  "parseHTML domParser html = domParser html"

definition getBodyElement :: "Document \<Rightarrow> node option" where
  "getBodyElement doc = (case body doc of Some b \<Rightarrow> Some b | None \<Rightarrow> documentElement doc)"

text \<open>
  What a call leaves behind: the returned \<open>tree\<close> and \<open>elementMap\<close>, the module
  variable \<open>nodeIdCounter\<close>, and the state of the element that \<open>getBodyElement\<close> gave
  (with its subtree) when the call returns, \<open>bodyAfter\<close>.
\<close>

record Outcome =
  tree :: "BoxNode option"
  elementMap :: ElementToBoxMap
  bodyAfter :: "node option"
  nodeIdCounter :: nat

definition hasNonWhitespaceText :: "node \<Rightarrow> bool" where
  "hasNonWhitespaceText b =
     list_ex (\<lambda>n. case n of Text r s \<Rightarrow> s \<noteq> [] \<and> trim s \<noteq> [] | _ \<Rightarrow> False)
       (nodeChildNodes b)"

text \<open>The object literal for the synthetic body root.\<close>

definition createBodyBox :: "node \<Rightarrow> nat \<Rightarrow> BoxNode \<times> nat" where
  "createBodyBox b c = (case generateId c of (i, c') \<Rightarrow>
     (BoxNode i BoxBlock (Some Block) (Some (nodeRef b)) None (Some ''body'') None None []
        False False None, c'))"

definition bodyRoot :: "node \<Rightarrow> nat \<Rightarrow> BoxNode \<times> nat" where
  "bodyRoot b c = (case createBodyBox b c of (root, c1) \<Rightarrow>
     (case processChildren b (Some Block) (Some BoxBlock) c1 of (cs, c2) \<Rightarrow>
        (setChildren root cs, c2)))"

definition finish :: "node \<Rightarrow> BoxNode \<times> nat \<Rightarrow> Outcome" where
  "finish b r = (case r of (root, c) \<Rightarrow>
     (case buildElementMap root (emptyElementMap, b) of (m, b') \<Rightarrow>
        \<lparr>tree = Some root, elementMap = m, bodyAfter = Some b', nodeIdCounter = c\<rparr>))"

text \<open>
  The \<open>try\<close> block from \<open>bodyElementChildren\<close> on, for a body \<open>b\<close>; \<open>c\<close> is
  \<open>nodeIdCounter\<close>.
\<close>

definition generateFromBody :: "node \<Rightarrow> nat \<Rightarrow> Outcome" where
  "generateFromBody b c =
     (case elementChildren b of
        [singleChild] \<Rightarrow>
          if \<not> hasNonWhitespaceText b then
            (let d = getComputedDisplayType singleChild in
             if \<not> generatesBox d then
               \<lparr>tree = None, elementMap = emptyElementMap, bodyAfter = Some b,
                nodeIdCounter = c\<rparr>
             else if isInlineLevel d \<and> \<not> establishesBlockFormattingContext d \<and>
                     hasBlockLevelChildren singleChild then
               finish b (bodyRoot b c)
             else
               finish b
                 (case createBoxFromElement singleChild d False None c of
                    (root, c1) \<Rightarrow>
                      (case processChildren singleChild (Some d) (Some (boxType root)) c1
                       of (cs, c2) \<Rightarrow> (setChildren root cs, c2))))
          else finish b (bodyRoot b c)
      | _ \<Rightarrow> finish b (bodyRoot b c))"

text \<open>
  \<open>counter0\<close> is the value of \<open>nodeIdCounter\<close> when the call starts; the first statement
  resets it. An exception of the parser is caught by the \<open>try\<close>. This is the call in which
  nothing else throws; \<open>generateBoxTreeCatching\<close> below is the call with every exception
  inside the \<open>try\<close>.
\<close>

definition generateBoxTree :: "DOMParser \<Rightarrow> string \<Rightarrow> nat \<Rightarrow> Outcome" where
  "generateBoxTree domParser html counter0 =
     (let c = 0 in
      case parseHTML domParser html of
        Inl err \<Rightarrow>
          \<lparr>tree = None, elementMap = emptyElementMap, bodyAfter = None, nodeIdCounter = c\<rparr>
      | Inr doc \<Rightarrow>
          (case getBodyElement doc of
             None \<Rightarrow>
               \<lparr>tree = None, elementMap = emptyElementMap, bodyAfter = None,
                nodeIdCounter = c\<rparr>
           | Some b \<Rightarrow> generateFromBody b c))"

section \<open>Exceptions inside the try block\<close>

text \<open>
  \<open>generateBoxTree\<close> above is the call in which nothing but the parser throws. Inside the
  \<open>try\<close> two more things can throw. The tree-building phase: a \<open>RangeError\<close> when the
  recursion over a deep source tree exhausts the stack, a \<open>TypeError\<close> when a method the
  generator calls on an element is shadowed. And \<open>buildElementMap\<close>: at
  \<open>node.element.setAttribute\<close>, which on a \<open>form\<close> element is the form's control named
  \<open>setAttribute\<close> if it has one, and on entering a call when the stack is exhausted. Which
  of these happen is decided by the browser; it is a parameter: \<open>generatorThrows b\<close> for
  the tree-building phase on the body \<open>b\<close>, \<open>setAttributeThrows r\<close> for the element with
  identity \<open>r\<close>, \<open>stackExhausted box\<close> for the call \<open>buildElementMap(box, elementMap)\<close>.
\<close>

record Runtime =
  generatorThrows :: "node \<Rightarrow> bool"
  setAttributeThrows :: "nat \<Rightarrow> bool"
  stackExhausted :: "BoxNode \<Rightarrow> bool"

text \<open>The runtime in which none of them throws.\<close>

definition quietRuntime :: Runtime where
  "quietRuntime = \<lparr>generatorThrows = (\<lambda>b. False), setAttributeThrows = (\<lambda>r. False),
                    stackExhausted = (\<lambda>box. False)\<rparr>"

text \<open>
  \<open>buildElementMap\<close> with its exceptions, and its loop over the children. \<open>Inr\<close> is the
  state after the walk; \<open>Inl\<close> is the state in which an exception left it: the map as
  filled so far and the source tree as tagged so far. The three map statements for
  \<open>node.element\<close> run before \<open>setAttribute\<close>, so the entries of the box whose
  \<open>setAttribute\<close> throws are already written.
\<close>

fun buildElementMapTry ::
  "Runtime \<Rightarrow> BoxNode \<Rightarrow> ElementToBoxMap \<times> node \<Rightarrow>
     (ElementToBoxMap \<times> node) + (ElementToBoxMap \<times> node)"
and buildChildrenTry ::
  "Runtime \<Rightarrow> BoxNode list \<Rightarrow> ElementToBoxMap \<times> node \<Rightarrow>
     (ElementToBoxMap \<times> node) + (ElementToBoxMap \<times> node)" where
  "buildElementMapTry rt (BoxNode i bt d e tc tg cl st ch an em tn) (m, src) =
     (if stackExhausted rt (BoxNode i bt d e tc tg cl st ch an em tn) then Inl (m, src)
      else
        (case e of
           Some el \<Rightarrow>
             if setAttributeThrows rt el then Inl (recordSource el i m, src)
             else buildChildrenTry rt ch
                    (case tn of Some t \<Rightarrow> recordSource t i (recordSource el i m)
                              | None \<Rightarrow> recordSource el i m,
                     setAttribute el ''data-box-id'' i src)
         | None \<Rightarrow>
             buildChildrenTry rt ch
               (case tn of Some t \<Rightarrow> recordSource t i m | None \<Rightarrow> m, src)))"
| "buildChildrenTry rt [] s = Inr s"
| "buildChildrenTry rt (child # rest) s =
     (case buildElementMapTry rt child s of
        Inl thrown \<Rightarrow> Inl thrown
      | Inr s' \<Rightarrow> buildChildrenTry rt rest s')"

text \<open>
  The root selection of the \<open>try\<close> block, before \<open>buildElementMap\<close>: the root with the
  counter, or nothing when the single top-level child generates no box.
\<close>

definition selectRoot :: "node \<Rightarrow> nat \<Rightarrow> (BoxNode \<times> nat) option" where
  "selectRoot b c =
     (case elementChildren b of
        [singleChild] \<Rightarrow>
          if \<not> hasNonWhitespaceText b then
            (let d = getComputedDisplayType singleChild in
             if \<not> generatesBox d then None
             else if isInlineLevel d \<and> \<not> establishesBlockFormattingContext d \<and>
                     hasBlockLevelChildren singleChild then
               Some (bodyRoot b c)
             else
               Some (case createBoxFromElement singleChild d False None c of
                       (root, c1) \<Rightarrow>
                         (case processChildren singleChild (Some d) (Some (boxType root)) c1
                          of (cs, c2) \<Rightarrow> (setChildren root cs, c2))))
          else Some (bodyRoot b c)
      | _ \<Rightarrow> Some (bodyRoot b c))"

text \<open>
  What the caller receives, \<open>{ tree, elementMap }\<close>, and with it the state of the body
  (with its subtree) when the call returns.
\<close>

record Returned =
  returnedTree :: "BoxNode option"
  returnedMap :: ElementToBoxMap
  sourceAfter :: "node option"

text \<open>
  The \<open>try\<close> block. \<open>Inl\<close> is an exception; it carries what the \<open>catch\<close> clause and the
  caller can still see: the object \<open>elementMap\<close>, which the \<open>catch\<close> clause returns, and
  the source tree.
\<close>

definition tryBlock ::
  "Runtime \<Rightarrow> DOMParser \<Rightarrow> string \<Rightarrow> (ElementToBoxMap \<times> node option) + Returned" where
  "tryBlock rt domParser html =
     (case parseHTML domParser html of
        Inl err \<Rightarrow> Inl (emptyElementMap, None)
      | Inr doc \<Rightarrow>
          (case getBodyElement doc of
             None \<Rightarrow>
               Inr \<lparr>returnedTree = None, returnedMap = emptyElementMap, sourceAfter = None\<rparr>
           | Some b \<Rightarrow>
               if generatorThrows rt b then Inl (emptyElementMap, Some b)
               else
                 (case selectRoot b 0 of
                    None \<Rightarrow>
                      Inr \<lparr>returnedTree = None, returnedMap = emptyElementMap,
                           sourceAfter = Some b\<rparr>
                  | Some (root, c) \<Rightarrow>
                      (case buildElementMapTry rt root (emptyElementMap, b) of
                         Inl (m, b') \<Rightarrow> Inl (m, Some b')
                       | Inr (m, b') \<Rightarrow>
                           Inr \<lparr>returnedTree = Some root, returnedMap = m,
                                sourceAfter = Some b'\<rparr>))))"

text \<open>
  \<open>try { block } catch (error) { handler }\<close>: the handler runs on what was thrown. The
  result \<open>Inl ()\<close> is an exception that reaches the caller.
\<close>

definition tryCatch :: "('e + 'a) \<Rightarrow> ('e \<Rightarrow> unit + 'a) \<Rightarrow> unit + 'a" where
  "tryCatch block handler = (case block of Inl thrown \<Rightarrow> handler thrown | Inr v \<Rightarrow> Inr v)"

text \<open>
  \<open>generateBoxTree\<close> with the exceptions inside the \<open>try\<close>. The \<open>catch\<close> clause logs
  with \<open>console.error\<close>, which does not throw, and returns a null tree with the object
  \<open>elementMap\<close> as it is.
\<close>

definition generateBoxTreeCatching :: "Runtime \<Rightarrow> DOMParser \<Rightarrow> string \<Rightarrow> unit + Returned" where
  "generateBoxTreeCatching rt domParser html =
     tryCatch (tryBlock rt domParser html)
       (\<lambda>thrown. Inr \<lparr>returnedTree = None, returnedMap = fst thrown,
                      sourceAfter = snd thrown\<rparr>)"

section \<open>Notions used in the statements\<close>

text \<open>A box with all its descendants, in pre-order; their ids; their source elements.\<close>

fun boxesOf :: "BoxNode \<Rightarrow> BoxNode list" where
  "boxesOf (BoxNode i bt d e tc tg cl st ch an em tn) =
     BoxNode i bt d e tc tg cl st ch an em tn # concat (map boxesOf ch)"

definition boxIds :: "BoxNode \<Rightarrow> string list" where
  "boxIds b = map boxId (boxesOf b)"

definition sourceElements :: "BoxNode \<Rightarrow> nat list" where
  "sourceElements b = List.map_filter element (boxesOf b)"

text \<open>
  Documents as the HTML parsing algorithm builds them: an \<open>html\<close> element holding an empty
  \<open>head\<close> and the body.
\<close>

definition htmlDocument :: "node \<Rightarrow> Document" where
  "htmlDocument b =
     \<lparr>body = Some b,
      documentElement = Some (Element 1000 ''HTML'' [] [Element 1001 ''HEAD'' [] [], b])\<rparr>"

definition scenarioBHtml :: string where
  "scenarioBHtml = ''<span>Before<div>X</div>After</span>''"

text \<open>\<open><div style=display:flex><li>y</li></div>\<close>\<close>

definition flexListBody :: node where
  "flexListBody =
     Element 0 ''BODY'' []
       [Element 1 ''DIV'' [(''style'', ''display:flex'')] [Element 2 ''LI'' [] [Text 3 ''y'']]]"

text \<open>\<open><span style=display:contents><em>y</em></span>\<close>\<close>

definition contentsRootBody :: node where
  "contentsRootBody =
     Element 0 ''BODY'' []
       [Element 1 ''SPAN'' [(''style'', ''display:contents'')]
          [Element 2 ''EM'' [] [Text 3 ''y'']]]"




text \<open>Two parsers: one that returns the same document for every text, one that throws.\<close>

definition constParser :: "Document \<Rightarrow> DOMParser" where
  "constParser doc = (\<lambda>html. Inr doc)"


definition scenarioBSpan :: node where
  "scenarioBSpan =
     Element 1 ''SPAN'' []
       [Text 2 ''Before'', Element 3 ''DIV'' [] [Text 4 ''X''], Text 5 ''After'']"

definition scenarioBBody :: node where
  "scenarioBBody =
     Element 0 ''BODY'' [] [scenarioBSpan]"

text \<open>The id made from the counter value \<open>k\<close>, and the ids of all boxes in a list of trees.\<close>

definition idOf :: "nat \<Rightarrow> string" where
  "idOf k = ''box-'' @ stringOfNat k"

definition idsOf :: "BoxNode list \<Rightarrow> string list" where
  "idsOf bs = concat (map boxIds bs)"

definition freshIds :: "nat \<Rightarrow> nat \<Rightarrow> string list \<Rightarrow> bool" where
  "freshIds lo hi xs = (distinct xs \<and> set xs \<subseteq> idOf ` {lo<..hi})"

text \<open>The list of an optional value.\<close>

fun optList :: "'a option \<Rightarrow> 'a list" where
  "optList None = []" | "optList (Some x) = [x]"

text \<open>The box tree of \<open><span>Before<div>X</div>After</span>\<close>.\<close>

definition scenarioBTree :: BoxNode where
  "scenarioBTree =
     BoxNode ''box-1'' BoxBlock (Some Block) (Some 0) None (Some ''body'') None None
       [BoxNode ''box-3'' AnonymousBlock None None None None None None
          [BoxNode ''box-2'' AnonymousInline None None (Some ''Before'') None None None []
             True False (Some 2)]
          True False None,
        BoxNode ''box-4'' BoxBlock (Some Block) (Some 3) None (Some ''div'') None None
          [BoxNode ''box-5'' AnonymousInline None None (Some ''X'') None None None []
             True False (Some 4)]
          False False None,
        BoxNode ''box-7'' AnonymousBlock None None None None None None
          [BoxNode ''box-6'' AnonymousInline None None (Some ''After'') None None None []
             True False (Some 5)]
          True False None]
       False False None"

text \<open>
  The two classes of box kinds of the containment invariant, the homogeneity of a child
  list, and the invariant over a whole tree: every box whose display keyword is a block
  container and does not blockify has a homogeneous child list.
\<close>

definition blockLevelOrAnonymousBlock :: "BoxType \<Rightarrow> bool" where
  "blockLevelOrAnonymousBlock bt =
     (bt \<in> set [BoxBlock, FlexContainer, GridContainer, BoxListItem, AnonymousBlock])"

definition inlineLevelOrAnonymousInline :: "BoxType \<Rightarrow> bool" where
  "inlineLevelOrAnonymousInline bt = (bt \<in> set [BoxInline, BoxInlineBlock, AnonymousInline])"

definition homogeneous :: "BoxNode list \<Rightarrow> bool" where
  "homogeneous bs =
     (list_all (\<lambda>b. blockLevelOrAnonymousBlock (boxType b)) bs \<or>
      list_all (\<lambda>b. inlineLevelOrAnonymousInline (boxType b)) bs)"

fun containmentHolds :: "BoxNode \<Rightarrow> bool" where
  "containmentHolds (BoxNode i bt d e tc tg cl st ch an em tn) =
     ((case d of
         Some k \<Rightarrow> (if isBlockContainer k \<and> \<not> blockifiesChildren k then homogeneous ch else True)
       | None \<Rightarrow> True)
      \<and> list_all containmentHolds ch)"

text \<open>A box of one of the two classes.\<close>

definition eitherKind :: "BoxNode \<Rightarrow> bool" where
  "eitherKind b = (blockLevelOrAnonymousBlock (boxType b) \<or> inlineLevelOrAnonymousInline (boxType b))"

text \<open>\<open><section><span>Foo</span><div>Bar</div>Baz</section>\<close> and its box tree.\<close>

definition scenarioABody :: node where
  "scenarioABody =
     Element 0 ''BODY'' []
       [Element 1 ''SECTION'' []
          [Element 2 ''SPAN'' [] [Text 3 ''Foo''], Element 4 ''DIV'' [] [Text 5 ''Bar''],
           Text 6 ''Baz'']]"

definition scenarioATree :: BoxNode where
  "scenarioATree =
     BoxNode ''box-1'' BoxBlock (Some Block) (Some 1) None (Some ''section'') None None
       [BoxNode ''box-7'' AnonymousBlock None None None None None None
          [BoxNode ''box-2'' BoxInline (Some Inline) (Some 2) None (Some ''span'') None None
             [BoxNode ''box-3'' AnonymousInline None None (Some ''Foo'') None None None []
                True False (Some 3)]
             False False None]
          True False None,
        BoxNode ''box-4'' BoxBlock (Some Block) (Some 4) None (Some ''div'') None None
          [BoxNode ''box-5'' AnonymousInline None None (Some ''Bar'') None None None []
             True False (Some 5)]
          False False None,
        BoxNode ''box-8'' AnonymousBlock None None None None None None
          [BoxNode ''box-6'' AnonymousInline None None (Some ''Baz'') None None None []
             True False (Some 6)]
          True False None]
       False False None"

text \<open>
  Blockification over a whole tree: under a box whose display keyword blockifies, a child
  made for an element is a flex or grid item, by the family of the keyword, and a child
  made for a text node is the anonymous item of that family.
\<close>

definition blockifiedChild :: "DisplayType \<Rightarrow> BoxNode \<Rightarrow> bool" where
  "blockifiedChild p b =
     (if element b = None
      then textNode b \<noteq> None \<and>
           boxType b = (if p = Grid \<or> p = InlineGrid then AnonymousGridItem else AnonymousFlexItem)
      else boxType b = (if p = Grid \<or> p = InlineGrid then GridItem else FlexItem))"

fun blockificationHolds :: "BoxNode \<Rightarrow> bool" where
  "blockificationHolds (BoxNode i bt d e tc tg cl st ch an em tn) =
     ((case d of
         Some p \<Rightarrow> (if blockifiesChildren p then list_all (blockifiedChild p) ch else True)
       | None \<Rightarrow> True)
      \<and> list_all blockificationHolds ch)"

text \<open>The box tree of \<open><div style=display:flex><li>y</li></div>\<close>.\<close>

definition flexListTree :: BoxNode where
  "flexListTree =
     BoxNode ''box-1'' FlexContainer (Some Flex) (Some 1) None (Some ''div'') None
       (Some ''display:flex'')
       [BoxNode ''box-2'' FlexItem (Some ListItem) (Some 2) None (Some ''li'') None None
          [BoxNode ''box-3'' AnonymousInline None None (Some ''y'') None None None []
             True False (Some 3)]
          False False None]
       False False None"

text \<open>
  The elements of a source tree with their attributes, in document order, and their
  identities. In a DOM tree the identities are distinct.
\<close>

fun elementAttributes :: "node \<Rightarrow> (nat \<times> (string \<times> string) list) list" where
  "elementAttributes (Element r t ats kids) = (r, ats) # concat (map elementAttributes kids)"
| "elementAttributes (Text r s) = []"
| "elementAttributes (OtherNode r) = []"

definition elementRefs :: "node \<Rightarrow> nat list" where
  "elementRefs n = map fst (elementAttributes n)"

definition refsOf :: "node list \<Rightarrow> nat list" where
  "refsOf ns = concat (map elementRefs ns)"


text \<open>
  The source elements of the boxes of a tree, each with the id of its box, in pre-order;
  one \<open>setAttribute\<close> call for such a pair; the attributes of an element after all of
  them. The source elements of the boxes of a list of trees.
\<close>

definition elementTags :: "BoxNode \<Rightarrow> (nat \<times> string) list" where
  "elementTags b =
     List.map_filter (\<lambda>bx. map_option (\<lambda>r. (r, boxId bx)) (element bx)) (boxesOf b)"



definition srcsOf :: "BoxNode list \<Rightarrow> nat list" where
  "srcsOf bs = concat (map sourceElements bs)"

text \<open>A list without repetition, all of whose members are in \<open>A\<close>.\<close>

definition within :: "nat set \<Rightarrow> nat list \<Rightarrow> bool" where
  "within A xs = (distinct xs \<and> set xs \<subseteq> A)"







section \<open>Properties\<close>

subsection \<open>Box kinds\<close>



text \<open>
  \<open>createBoxFromElement\<close> under a blockifying parent: the kind is the item kind of the
  parent's family for every display keyword of the element.
\<close>

lemma blockified_child_kind:
  assumes "blockifiesChildren p"
  shows "boxType (fst (createBoxFromElement el d (parentBlockifiesOf (Some p)) (Some p) c)) =
           (if p = Grid \<or> p = InlineGrid then GridItem else FlexItem)
         \<and> (p = Flex \<or> p = InlineFlex \<or> p = Grid \<or> p = InlineGrid)"
  using assms
  by (simp add: createBoxFromElement_def parentBlockifiesOf_def parentIsGrid_def generateId_def
        Let_def blockifiesChildren_def)

lemma blockified_child_kind_example:
  "boxType (fst (createBoxFromElement (Element 2 ''LI'' [] []) ListItem
      (parentBlockifiesOf (Some InlineGrid)) (Some InlineGrid) 1)) = GridItem"
proof -
  have h: "blockifiesChildren InlineGrid" by (simp add: blockifiesChildren_def)
  show ?thesis using blockified_child_kind [OF h, of "Element 2 ''LI'' [] []" ListItem 1] by simp
qed

text \<open>
  C4 (as claimed) fails: the \<open>li\<close> child of a flex container has the display keyword
  \<open>list-item\<close> and gets the kind \<open>flex-item\<close>, not \<open>list-item\<close>.
\<close>

theorem list_item_in_flex_counterexample:
  "tree (generateBoxTree (constParser (htmlDocument flexListBody))
          ''<div style=display:flex><li>y</li></div>'' 0) =
     Some (BoxNode ''box-1'' FlexContainer (Some Flex) (Some 1) None (Some ''div'') None
             (Some ''display:flex'')
             [BoxNode ''box-2'' FlexItem (Some ListItem) (Some 2) None (Some ''li'') None None
                [BoxNode ''box-3'' AnonymousInline None None (Some ''y'') None None None []
                   True False (Some 3)]
                False False None]
             False False None)"
  by code_simp

subsection \<open>Display resolution\<close>

text \<open>
  C6 at \<open>style="display: constructor"\<close> on a \<open>div\<close>: the value is no display keyword, but
  the resolver neither ignores it nor falls through to the tag default \<open>block\<close>; it returns
  the property that \<open>displayMap\<close> inherits under that name.
\<close>

theorem inherited_property_as_display:
  "getDisplayFromStyle (Some ''display: constructor'') = Some (ProtoValue ''constructor'')
   \<and> getComputedDisplayType (Element 1 ''DIV'' [(''style'', ''display: constructor'')] []) =
       ProtoValue ''constructor''
   \<and> map_of displayMap ''constructor'' = None
   \<and> getComputedDisplayType (Element 1 ''DIV'' [] []) = Block"
  by code_simp

text \<open>
  Apart from the names of inherited properties the priority order holds: each of the 25
  keywords is recognised in a declaration, in any case and with white space around it; a
  value that is neither a keyword nor such a name is ignored; and without a display from the
  style the result is the entry of the tag table, or \<open>block\<close>.
\<close>

lemma resolver_recognises_keywords:
  "list_all (\<lambda>(k, d). getDisplayFromStyle (Some (''color: red; Display : '' @ k @ '' ;'')) = Some d)
     displayMap"
  by code_simp

lemma resolver_ignores_unrecognised:
  assumes "displayMatch s = Some cap"
    and "toLowerCase (trim cap) \<notin> set (map fst displayMap)"
    and "toLowerCase (trim cap) \<notin> set objectPrototypeKeys"
  shows "getDisplayFromStyle (Some s) = None"
proof -
  from assms(2) have "map_of displayMap (toLowerCase (trim cap)) = None"
    by (simp add: map_of_eq_None_iff)
  with assms(1,3) show ?thesis
    by (simp add: getDisplayFromStyle_def getProperty_def)
qed

lemma resolver_tag_default:
  assumes "getDisplayFromStyle (getAttribute el ''style'') = None"
  shows "getComputedDisplayType el =
           (case getProperty DEFAULT_DISPLAY_TYPES (toLowerCase (nodeTagName el)) of
              Some d \<Rightarrow> d | None \<Rightarrow> Block)"
  using assms by (simp add: getComputedDisplayType_def)

subsection \<open>Root selection\<close>

text \<open>
  C2 at \<open><span style=display:contents><em>y</em></span>\<close>: the \<open>span\<close> is the only child
  of the body and resolves to \<open>contents\<close>; the root of the tree is a box for it.
\<close>

theorem contents_single_child_is_root:
  "tree (generateBoxTree (constParser (htmlDocument contentsRootBody))
          ''<span style=display:contents><em>y</em></span>'' 0) =
     Some (BoxNode ''box-1'' BoxBlock (Some Contents) (Some 1) None (Some ''span'') None
             (Some ''display:contents'')
             [BoxNode ''box-2'' BoxInline (Some Inline) (Some 2) None (Some ''em'') None None
                [BoxNode ''box-3'' AnonymousInline None None (Some ''y'') None None None []
                   True False (Some 3)]
                False False None]
             False False None)
   \<and> getComputedDisplayType (Element 1 ''SPAN'' [(''style'', ''display:contents'')]
         [Element 2 ''EM'' [] [Text 3 ''y'']]) = Contents"
  by code_simp

lemma scenarioB_outcome:
  "tree (generateFromBody scenarioBBody 0) =
     Some (BoxNode ''box-1'' BoxBlock (Some Block) (Some 0) None (Some ''body'') None None
       [BoxNode ''box-3'' AnonymousBlock None None None None None None
          [BoxNode ''box-2'' AnonymousInline None None (Some ''Before'') None None None []
             True False (Some 2)]
          True False None,
        BoxNode ''box-4'' BoxBlock (Some Block) (Some 3) None (Some ''div'') None None
          [BoxNode ''box-5'' AnonymousInline None None (Some ''X'') None None None []
             True False (Some 4)]
          False False None,
        BoxNode ''box-7'' AnonymousBlock None None None None None None
          [BoxNode ''box-6'' AnonymousInline None None (Some ''After'') None None None []
             True False (Some 5)]
          True False None]
       False False None)"
  by code_simp

text \<open>
  C3. For \<open><span>Before<div>X</div>After</span>\<close> the root is the body wrapper, of kind
  \<open>block\<close>, with three children: an anonymous block holding the text \<open>Before\<close>, the
  \<open>block\<close> box of the \<open>div\<close> holding the text \<open>X\<close>, and an anonymous block holding the
  text \<open>After\<close>; no box of the tree has the \<open>span\<close> as its source element.
\<close>

theorem scenario_B_split:
  assumes "domParser scenarioBHtml = Inr doc" and "getBodyElement doc = Some scenarioBBody"
  shows "case tree (generateBoxTree domParser scenarioBHtml counter0) of
           None \<Rightarrow> False
         | Some root \<Rightarrow>
             boxType root = BoxBlock \<and> tagName root = Some ''body''
             \<and> element root = Some (nodeRef scenarioBBody)
             \<and> map boxType (children root) = [AnonymousBlock, BoxBlock, AnonymousBlock]
             \<and> map tagName (children root) = [None, Some ''div'', None]
             \<and> map (map boxType \<circ> children) (children root) =
                 [[AnonymousInline], [AnonymousInline], [AnonymousInline]]
             \<and> map (map textContent \<circ> children) (children root) =
                 [[Some ''Before''], [Some ''X''], [Some ''After'']]
             \<and> nodeRef scenarioBSpan \<notin> set (sourceElements root)"
proof -
  have "tree (generateBoxTree domParser scenarioBHtml counter0) =
        tree (generateFromBody scenarioBBody 0)"
    using assms by (simp add: generateBoxTree_def parseHTML_def)
  then have t: "tree (generateBoxTree domParser scenarioBHtml counter0) =
     Some (BoxNode ''box-1'' BoxBlock (Some Block) (Some 0) None (Some ''body'') None None
       [BoxNode ''box-3'' AnonymousBlock None None None None None None
          [BoxNode ''box-2'' AnonymousInline None None (Some ''Before'') None None None []
             True False (Some 2)]
          True False None,
        BoxNode ''box-4'' BoxBlock (Some Block) (Some 3) None (Some ''div'') None None
          [BoxNode ''box-5'' AnonymousInline None None (Some ''X'') None None None []
             True False (Some 4)]
          False False None,
        BoxNode ''box-7'' AnonymousBlock None None None None None None
          [BoxNode ''box-6'' AnonymousInline None None (Some ''After'') None None None []
             True False (Some 5)]
          True False None]
       False False None)"
    by (simp only: scenarioB_outcome)
  show ?thesis
    unfolding t
    by (simp add: sourceElements_def List.map_filter_def scenarioBBody_def scenarioBSpan_def)
qed

theorem scenario_B_split_witness:
  "case tree (generateBoxTree (constParser (htmlDocument scenarioBBody)) scenarioBHtml 0) of
     None \<Rightarrow> False
   | Some root \<Rightarrow>
       boxType root = BoxBlock \<and> tagName root = Some ''body''
       \<and> element root = Some (nodeRef scenarioBBody)
       \<and> map boxType (children root) = [AnonymousBlock, BoxBlock, AnonymousBlock]
       \<and> map tagName (children root) = [None, Some ''div'', None]
       \<and> map (map boxType \<circ> children) (children root) =
           [[AnonymousInline], [AnonymousInline], [AnonymousInline]]
       \<and> map (map textContent \<circ> children) (children root) =
           [[Some ''Before''], [Some ''X''], [Some ''After'']]
       \<and> nodeRef scenarioBSpan \<notin> set (sourceElements root)"
proof -
  have h1: "constParser (htmlDocument scenarioBBody) scenarioBHtml = Inr (htmlDocument scenarioBBody)"
    by (simp add: constParser_def)
  have h2: "getBodyElement (htmlDocument scenarioBBody) = Some scenarioBBody"
    by (simp add: getBodyElement_def htmlDocument_def)
  show ?thesis
    by (rule scenario_B_split [where domParser = "constParser (htmlDocument scenarioBBody)"
          and doc = "htmlDocument scenarioBBody", OF h1 h2])
qed

subsection \<open>The outcome of the map-building step\<close>

lemma tree_finish: "tree (finish b r) = Some (fst r)"
  by (simp add: finish_def split: prod.splits)

lemma bodyAfter_finish:
  "bodyAfter (finish b r) = Some (snd (buildElementMap (fst r) (emptyElementMap, b)))"
  by (simp add: finish_def split: prod.splits)

subsection \<open>Determinism\<close>

text \<open>
  C9. The outcome of a call does not depend on the value \<open>nodeIdCounter\<close> has when the
  call starts; so a second call on the same text, started in the state the first one left,
  returns the same tree, with the same ids, and the same map.
\<close>

theorem generateBoxTree_deterministic:
  "generateBoxTree domParser html c1 = generateBoxTree domParser html c2
   \<and> generateBoxTree domParser html (nodeIdCounter (generateBoxTree domParser html c1)) =
       generateBoxTree domParser html c1"
  by (simp add: generateBoxTree_def)

theorem generateBoxTree_deterministic_witness:
  "generateBoxTree (constParser (htmlDocument scenarioBBody)) scenarioBHtml 0 =
     generateBoxTree (constParser (htmlDocument scenarioBBody)) scenarioBHtml 7
   \<and> nodeIdCounter (generateBoxTree (constParser (htmlDocument scenarioBBody)) scenarioBHtml 0) = 7"
proof -
  have "nodeIdCounter (generateBoxTree (constParser (htmlDocument scenarioBBody)) scenarioBHtml 0) = 7"
    by code_simp
  then show ?thesis
    using generateBoxTree_deterministic
            [of "constParser (htmlDocument scenarioBBody)" scenarioBHtml 0 7]
    by simp
qed

subsection \<open>Effect on the source tree\<close>




subsection \<open>An induction rule for the generator\<close>

text \<open>
  The recursion of \<open>processChildren\<close>, \<open>processInlineWithBlockChildren\<close> and their
  loops, one case for each path through a loop body: the case gives the conditions of the
  path, the calls made on it with their results, and the equation between the loop at this
  node and the loop at the remaining nodes.
\<close>

lemma generator_induct
  [case_names pc_element pc_text pc_other loop_nil loop_skip loop_text loop_contents loop_split
     loop_normal split_element split_text split_other sl_nil sl_skip sl_text sl_contents
     sl_block sl_nested sl_inline]:
  fixes P :: "node \<Rightarrow> DisplayType option \<Rightarrow> BoxType option \<Rightarrow> nat \<Rightarrow> bool"
    and Q :: "DisplayType option \<Rightarrow> BoxType option \<Rightarrow> node list \<Rightarrow> BoxNode list \<Rightarrow> nat \<Rightarrow> bool"
    and R :: "node \<Rightarrow> DisplayType \<Rightarrow> bool \<Rightarrow> nat \<Rightarrow> bool"
    and S :: "DisplayType \<Rightarrow> bool \<Rightarrow> node list \<Rightarrow> BoxNode list \<Rightarrow> BoxNode list \<Rightarrow> nat \<Rightarrow> bool"
  assumes pc_element: "\<And>r t ats kids pdt pbt c.
      Q pdt pbt kids [] c \<Longrightarrow> P (Element r t ats kids) pdt pbt c"
    and pc_text: "\<And>r s pdt pbt c. P (Text r s) pdt pbt c"
    and pc_other: "\<And>r pdt pbt c. P (OtherNode r) pdt pbt c"
    and loop_nil: "\<And>pdt pbt acc c. Q pdt pbt [] acc c"
    and loop_skip: "\<And>pdt pbt n ns acc c.
      \<lbrakk>processChildrenLoop pdt pbt (n # ns) acc c = processChildrenLoop pdt pbt ns acc c;
       Q pdt pbt ns acc c\<rbrakk> \<Longrightarrow> Q pdt pbt (n # ns) acc c"
    and loop_text: "\<And>pdt pbt r tx ns acc c b c1.
      \<lbrakk>trim tx \<noteq> []; createTextBox pdt tx r c = (b, c1);
       processChildrenLoop pdt pbt (Text r tx # ns) acc c =
         processChildrenLoop pdt pbt ns (acc @ [b]) c1;
       Q pdt pbt ns (acc @ [b]) c1\<rbrakk> \<Longrightarrow> Q pdt pbt (Text r tx # ns) acc c"
    and loop_contents: "\<And>pdt pbt r t ats kids ns acc c cc c1.
      \<lbrakk>isContents (getComputedDisplayType (Element r t ats kids));
       processChildren (Element r t ats kids) pdt pbt c = (cc, c1);
       processChildrenLoop pdt pbt (Element r t ats kids # ns) acc c =
         processChildrenLoop pdt pbt ns (acc @ cc) c1;
       P (Element r t ats kids) pdt pbt c;
       Q pdt pbt ns (acc @ cc) c1\<rbrakk> \<Longrightarrow> Q pdt pbt (Element r t ats kids # ns) acc c"
    and loop_split: "\<And>pdt pbt r t ats kids ns acc c d sb c1.
      \<lbrakk>d = getComputedDisplayType (Element r t ats kids);
       isInlineLevel d; \<not> parentEstablishesBFCOf pdt;
       hasBlockLevelChildren (Element r t ats kids);
       \<not> establishesBlockFormattingContext d;
       processInlineWithBlockChildren (Element r t ats kids) d (parentBlockifiesOf pdt) c = (sb, c1);
       processChildrenLoop pdt pbt (Element r t ats kids # ns) acc c =
         processChildrenLoop pdt pbt ns (acc @ sb) c1;
       R (Element r t ats kids) d (parentBlockifiesOf pdt) c;
       Q pdt pbt ns (acc @ sb) c1\<rbrakk> \<Longrightarrow> Q pdt pbt (Element r t ats kids # ns) acc c"
    and loop_normal: "\<And>pdt pbt r t ats kids ns acc c d box c1 cs c2.
      \<lbrakk>d = getComputedDisplayType (Element r t ats kids);
       generatesBox d; \<not> isContents d;
       createBoxFromElement (Element r t ats kids) d (parentBlockifiesOf pdt) pdt c = (box, c1);
       processChildren (Element r t ats kids) (Some d) (Some (boxType box)) c1 = (cs, c2);
       processChildrenLoop pdt pbt (Element r t ats kids # ns) acc c =
         processChildrenLoop pdt pbt ns (acc @ [setChildren box cs]) c2;
       P (Element r t ats kids) (Some d) (Some (boxType box)) c1;
       Q pdt pbt ns (acc @ [setChildren box cs]) c2\<rbrakk>
      \<Longrightarrow> Q pdt pbt (Element r t ats kids # ns) acc c"
    and split_element: "\<And>r t ats kids idt pb c.
      S idt pb kids [] [] c \<Longrightarrow> R (Element r t ats kids) idt pb c"
    and split_text: "\<And>r s idt pb c. R (Text r s) idt pb c"
    and split_other: "\<And>r idt pb c. R (OtherNode r) idt pb c"
    and sl_nil: "\<And>idt pb result cur c. S idt pb [] result cur c"
    and sl_skip: "\<And>idt pb n ns result cur c.
      \<lbrakk>splitLoop idt pb (n # ns) result cur c = splitLoop idt pb ns result cur c;
       S idt pb ns result cur c\<rbrakk> \<Longrightarrow> S idt pb (n # ns) result cur c"
    and sl_text: "\<And>idt pb r tx ns result cur c b c1.
      \<lbrakk>\<not> isWhitespaceOnly tx; createAnonymousInlineBox tx r c = (b, c1);
       splitLoop idt pb (Text r tx # ns) result cur c = splitLoop idt pb ns result (cur @ [b]) c1;
       S idt pb ns result (cur @ [b]) c1\<rbrakk> \<Longrightarrow> S idt pb (Text r tx # ns) result cur c"
    and sl_contents: "\<And>idt pb r t ats kids ns result cur c cc c1.
      \<lbrakk>isContents (getComputedDisplayType (Element r t ats kids));
       processChildren (Element r t ats kids) (Some idt) None c = (cc, c1);
       splitLoop idt pb (Element r t ats kids # ns) result cur c =
         splitLoop idt pb ns result (cur @ cc) c1;
       P (Element r t ats kids) (Some idt) None c;
       S idt pb ns result (cur @ cc) c1\<rbrakk> \<Longrightarrow> S idt pb (Element r t ats kids # ns) result cur c"
    and sl_block: "\<And>idt pb r t ats kids ns result cur c d result1 c1 bb c2 cs c3.
      \<lbrakk>d = getComputedDisplayType (Element r t ats kids);
       generatesBox d; \<not> isContents d; isBlockLevel d;
       closeRun result cur c = (result1, c1);
       createBoxFromElement (Element r t ats kids) d pb None c1 = (bb, c2);
       processChildren (Element r t ats kids) (Some d) (Some (boxType bb)) c2 = (cs, c3);
       splitLoop idt pb (Element r t ats kids # ns) result cur c =
         splitLoop idt pb ns (result1 @ [setChildren bb cs]) [] c3;
       P (Element r t ats kids) (Some d) (Some (boxType bb)) c2;
       S idt pb ns (result1 @ [setChildren bb cs]) [] c3\<rbrakk>
      \<Longrightarrow> S idt pb (Element r t ats kids # ns) result cur c"
    and sl_nested: "\<And>idt pb r t ats kids ns result cur c d nested c1 result1 cur1 c2.
      \<lbrakk>d = getComputedDisplayType (Element r t ats kids);
       generatesBox d; \<not> isContents d; \<not> isBlockLevel d;
       \<not> establishesBlockFormattingContext d;
       hasBlockLevelChildren (Element r t ats kids);
       processInlineWithBlockChildren (Element r t ats kids) d pb c = (nested, c1);
       mergeNested nested result cur c1 = (result1, cur1, c2);
       splitLoop idt pb (Element r t ats kids # ns) result cur c =
         splitLoop idt pb ns result1 cur1 c2;
       R (Element r t ats kids) d pb c;
       S idt pb ns result1 cur1 c2\<rbrakk>
      \<Longrightarrow> S idt pb (Element r t ats kids # ns) result cur c"
    and sl_inline: "\<And>idt pb r t ats kids ns result cur c d ib c1 cs c2.
      \<lbrakk>d = getComputedDisplayType (Element r t ats kids);
       generatesBox d; \<not> isContents d; \<not> isBlockLevel d;
       createBoxFromElement (Element r t ats kids) d pb None c = (ib, c1);
       processChildren (Element r t ats kids) (Some d) (Some (boxType ib)) c1 = (cs, c2);
       splitLoop idt pb (Element r t ats kids # ns) result cur c =
         splitLoop idt pb ns result (cur @ [setChildren ib cs]) c2;
       P (Element r t ats kids) (Some d) (Some (boxType ib)) c1;
       S idt pb ns result (cur @ [setChildren ib cs]) c2\<rbrakk>
      \<Longrightarrow> S idt pb (Element r t ats kids # ns) result cur c"
  shows "P el pdt pbt c"
    and "Q pdt pbt ns acc c"
    and "R el idt pb c"
    and "S idt pb ns result cur c"
proof (induction el pdt pbt c and pdt pbt ns acc c and el idt pb c and idt pb ns result cur c
       rule: processChildren_processChildrenLoop_processInlineWithBlockChildren_splitLoop.induct)
  case (1 r t ats kids pdt pbt c)
  then show ?case by (rule pc_element)
next
  case (2 r s pdt pbt c)
  show ?case by (rule pc_text)
next
  case (3 r pdt pbt c)
  show ?case by (rule pc_other)
next
  case (4 pdt pbt acc c)
  show ?case by (rule loop_nil)
next
  case (5 pdt pbt r tx ns acc c)
  show ?case
  proof (cases "isWhitespaceOnly tx \<and> parentIsBlockLevelOf pdt")
    case True
    then have "processChildrenLoop pdt pbt (Text r tx # ns) acc c =
               processChildrenLoop pdt pbt ns acc c" by simp
    then show ?thesis using 5(1) [OF True] by (rule loop_skip)
  next
    case nw: False
    show ?thesis
    proof (cases "trim tx \<noteq> []")
      case True
      obtain b c1 where b: "createTextBox pdt tx r c = (b, c1)"
        by (cases "createTextBox pdt tx r c")
      have "processChildrenLoop pdt pbt (Text r tx # ns) acc c =
            processChildrenLoop pdt pbt ns (acc @ [b]) c1"
        by (simp add: nw True b)
      then show ?thesis
        using 5(2) [OF nw True b [symmetric]] by (rule loop_text [OF True b])
    next
      case False
      then have "processChildrenLoop pdt pbt (Text r tx # ns) acc c =
                 processChildrenLoop pdt pbt ns acc c" by (simp add: nw)
      then show ?thesis using 5(3) [OF nw False] by (rule loop_skip)
    qed
  qed
next
  case (6 pdt pbt r t ats kids ns acc c)
  let ?el = "Element r t ats kids"
  let ?d = "getComputedDisplayType ?el"
  show ?case
  proof (cases "generatesBox ?d")
    case False
    then have "processChildrenLoop pdt pbt (?el # ns) acc c = processChildrenLoop pdt pbt ns acc c"
      by (simp add: Let_def del: processChildren.simps processInlineWithBlockChildren.simps)
    then show ?thesis using 6(1) [OF refl False] by (rule loop_skip)
  next
    case g: True
    then have nn: "\<not> \<not> generatesBox ?d" by simp
    show ?thesis
    proof (cases "isContents ?d")
      case True
      obtain cc c1 where p: "processChildren ?el pdt pbt c = (cc, c1)"
        by (cases "processChildren ?el pdt pbt c")
      have eq: "processChildrenLoop pdt pbt (?el # ns) acc c =
                processChildrenLoop pdt pbt ns (acc @ cc) c1"
        by (simp add: Let_def g True p
                del: processChildren.simps processInlineWithBlockChildren.simps)
      show ?thesis
        by (rule loop_contents [OF True p eq 6(2) [OF refl nn True]
              6(3) [OF refl nn True p [symmetric]]])
    next
      case nc: False
      show ?thesis
      proof (cases "isInlineLevel ?d \<and> \<not> parentEstablishesBFCOf pdt \<and>
                    hasBlockLevelChildren ?el \<and> \<not> establishesBlockFormattingContext ?d")
        case True
        obtain sb c1 where p:
          "processInlineWithBlockChildren ?el ?d (parentBlockifiesOf pdt) c = (sb, c1)"
          by (cases "processInlineWithBlockChildren ?el ?d (parentBlockifiesOf pdt) c")
        have eq: "processChildrenLoop pdt pbt (?el # ns) acc c =
                  processChildrenLoop pdt pbt ns (acc @ sb) c1"
          by (simp add: Let_def g nc True p
                del: processChildren.simps processInlineWithBlockChildren.simps)
        from True have c1: "isInlineLevel ?d" and c2: "\<not> parentEstablishesBFCOf pdt"
          and c3: "hasBlockLevelChildren ?el" and c4: "\<not> establishesBlockFormattingContext ?d"
          by simp_all
        show ?thesis
          by (rule loop_split [OF refl c1 c2 c3 c4 p eq 6(4) [OF refl nn nc True]
                6(5) [OF refl nn nc True p [symmetric]]])
      next
        case False
        obtain box c1 where b:
          "createBoxFromElement ?el ?d (parentBlockifiesOf pdt) pdt c = (box, c1)"
          by (cases "createBoxFromElement ?el ?d (parentBlockifiesOf pdt) pdt c")
        obtain cs c2 where p: "processChildren ?el (Some ?d) (Some (boxType box)) c1 = (cs, c2)"
          by (cases "processChildren ?el (Some ?d) (Some (boxType box)) c1")
        have eq: "processChildrenLoop pdt pbt (?el # ns) acc c =
                  processChildrenLoop pdt pbt ns (acc @ [setChildren box cs]) c2"
          by (simp add: Let_def g nc False b p
                del: processChildren.simps processInlineWithBlockChildren.simps)
        show ?thesis
          by (rule loop_normal [OF refl g nc b p eq 6(6) [OF refl nn nc False b [symmetric]]
                6(7) [OF refl nn nc False b [symmetric] p [symmetric]]])
      qed
    qed
  qed
next
  case (7 pdt pbt r ns acc c)
  have "processChildrenLoop pdt pbt (OtherNode r # ns) acc c = processChildrenLoop pdt pbt ns acc c"
    by simp
  then show ?case using 7 by (rule loop_skip)
next
  case (8 r t ats kids inlineDisplayType parentBlockifies c)
  then show ?case by (rule split_element)
next
  case (9 r s inlineDisplayType parentBlockifies c)
  show ?case by (rule split_text)
next
  case (10 r inlineDisplayType parentBlockifies c)
  show ?case by (rule split_other)
next
  case (11 idt pb result cur c)
  show ?case by (rule sl_nil)
next
  case (12 idt pb r tx ns result cur c)
  show ?case
  proof (cases "isWhitespaceOnly tx")
    case True
    then have nn: "\<not> \<not> isWhitespaceOnly tx" by simp
    have "splitLoop idt pb (Text r tx # ns) result cur c = splitLoop idt pb ns result cur c"
      using True by simp
    then show ?thesis using 12(2) [OF nn] by (rule sl_skip)
  next
    case False
    obtain b c1 where b: "createAnonymousInlineBox tx r c = (b, c1)"
      by (cases "createAnonymousInlineBox tx r c")
    have eq: "splitLoop idt pb (Text r tx # ns) result cur c =
              splitLoop idt pb ns result (cur @ [b]) c1"
      by (simp add: False b)
    show ?thesis by (rule sl_text [OF False b eq 12(1) [OF False b [symmetric]]])
  qed
next
  case (13 idt pb r t ats kids ns result cur c)
  let ?el = "Element r t ats kids"
  let ?d = "getComputedDisplayType ?el"
  show ?case
  proof (cases "generatesBox ?d")
    case False
    then have "splitLoop idt pb (?el # ns) result cur c = splitLoop idt pb ns result cur c"
      by (simp add: Let_def del: processChildren.simps processInlineWithBlockChildren.simps)
    then show ?thesis using 13(1) [OF refl False] by (rule sl_skip)
  next
    case g: True
    then have nn: "\<not> \<not> generatesBox ?d" by simp
    show ?thesis
    proof (cases "isContents ?d")
      case True
      obtain cc c1 where p: "processChildren ?el (Some idt) None c = (cc, c1)"
        by (cases "processChildren ?el (Some idt) None c")
      have eq: "splitLoop idt pb (?el # ns) result cur c = splitLoop idt pb ns result (cur @ cc) c1"
        by (simp add: Let_def g True p
                del: processChildren.simps processInlineWithBlockChildren.simps)
      show ?thesis
        by (rule sl_contents [OF True p eq 13(2) [OF refl nn True]
              13(3) [OF refl nn True p [symmetric]]])
    next
      case nc: False
      show ?thesis
      proof (cases "isBlockLevel ?d")
        case True
        obtain result1 c1 where cr: "closeRun result cur c = (result1, c1)"
          by (cases "closeRun result cur c")
        obtain bb c2 where b: "createBoxFromElement ?el ?d pb None c1 = (bb, c2)"
          by (cases "createBoxFromElement ?el ?d pb None c1")
        obtain cs c3 where p: "processChildren ?el (Some ?d) (Some (boxType bb)) c2 = (cs, c3)"
          by (cases "processChildren ?el (Some ?d) (Some (boxType bb)) c2")
        have eq: "splitLoop idt pb (?el # ns) result cur c =
                  splitLoop idt pb ns (result1 @ [setChildren bb cs]) [] c3"
          by (simp add: Let_def g nc True cr b p
                del: processChildren.simps processInlineWithBlockChildren.simps)
        show ?thesis
          by (rule sl_block [OF refl g nc True cr b p eq
                13(4) [OF refl nn nc True cr [symmetric] b [symmetric]]
                13(5) [OF refl nn nc True cr [symmetric] b [symmetric] p [symmetric]]])
      next
        case nb: False
        show ?thesis
        proof (cases "\<not> establishesBlockFormattingContext ?d \<and> hasBlockLevelChildren ?el")
          case True
          obtain nested c1 where p: "processInlineWithBlockChildren ?el ?d pb c = (nested, c1)"
            by (cases "processInlineWithBlockChildren ?el ?d pb c")
          obtain result1 cur1 c2 where m: "mergeNested nested result cur c1 = (result1, cur1, c2)"
            by (cases "mergeNested nested result cur c1") auto
          have eq: "splitLoop idt pb (?el # ns) result cur c = splitLoop idt pb ns result1 cur1 c2"
            by (simp add: Let_def g nc nb True p m
                del: processChildren.simps processInlineWithBlockChildren.simps)
          from True have t1: "\<not> establishesBlockFormattingContext ?d"
            and t2: "hasBlockLevelChildren ?el" by simp_all
          have m': "(result1, cur1, c2) = mergeNested nested result cur c1" using m by simp
          show ?thesis
            by (rule sl_nested [OF refl g nc nb t1 t2 p m eq 13(6) [OF refl nn nc nb True]
                  13(7) [OF refl nn nc nb True p [symmetric] m' refl]])
        next
          case False
          obtain ib c1 where b: "createBoxFromElement ?el ?d pb None c = (ib, c1)"
            by (cases "createBoxFromElement ?el ?d pb None c")
          obtain cs c2 where p: "processChildren ?el (Some ?d) (Some (boxType ib)) c1 = (cs, c2)"
            by (cases "processChildren ?el (Some ?d) (Some (boxType ib)) c1")
          have eq: "splitLoop idt pb (?el # ns) result cur c =
                    splitLoop idt pb ns result (cur @ [setChildren ib cs]) c2"
            by (simp add: Let_def g nc nb False b p
                del: processChildren.simps processInlineWithBlockChildren.simps)
          show ?thesis
            by (rule sl_inline [OF refl g nc nb b p eq
                  13(8) [OF refl nn nc nb False b [symmetric]]
                  13(9) [OF refl nn nc nb False b [symmetric] p [symmetric]]])
        qed
      qed
    qed
  qed
next
  case (14 idt pb r ns result cur c)
  have "splitLoop idt pb (OtherNode r # ns) result cur c = splitLoop idt pb ns result cur c"
    by simp
  then show ?case using 14 by (rule sl_skip)
qed

subsection \<open>Box identities\<close>

lemma stringOfNat_nonempty: "stringOfNat n \<noteq> []"
  by (subst stringOfNat.simps) simp

lemma digit_inj:
  assumes "m < 10" "n < 10" "''0123456789'' ! m = ''0123456789'' ! n"
  shows "m = n"
proof -
  have "distinct ''0123456789''" by simp
  moreover have "m < length ''0123456789''" "n < length ''0123456789''" using assms by simp_all
  ultimately show ?thesis using assms(3) by (simp only: nth_eq_iff_index_eq)
qed

lemma stringOfNat_inj: "stringOfNat m = stringOfNat n \<Longrightarrow> m = n"
proof (induction m arbitrary: n rule: stringOfNat.induct)
  case (1 m)
  show ?case
  proof (cases "m < 10")
    case True
    show ?thesis
    proof (cases "n < 10")
      case True
      with \<open>m < 10\<close> "1.prems" show ?thesis
        by (subst (asm) stringOfNat.simps, subst (asm) (2) stringOfNat.simps) (simp add: digit_inj)
    next
      case False
      have "length (stringOfNat m) = 1" using \<open>m < 10\<close> by (subst stringOfNat.simps) simp
      moreover have "length (stringOfNat n) \<ge> 2"
        using False stringOfNat_nonempty [of "n div 10"]
        by (subst stringOfNat.simps) (cases "stringOfNat (n div 10)"; simp)
      ultimately show ?thesis using "1.prems" by simp
    qed
  next
    case False
    show ?thesis
    proof (cases "n < 10")
      case True
      have "length (stringOfNat n) = 1" using True by (subst stringOfNat.simps) simp
      moreover have "length (stringOfNat m) \<ge> 2"
        using False stringOfNat_nonempty [of "m div 10"]
        by (subst stringOfNat.simps) (cases "stringOfNat (m div 10)"; simp)
      ultimately show ?thesis using "1.prems" by simp
    next
      case nf: False
      have m: "stringOfNat m = stringOfNat (m div 10) @ [''0123456789'' ! (m mod 10)]"
        using False by (subst stringOfNat.simps) simp
      have n: "stringOfNat n = stringOfNat (n div 10) @ [''0123456789'' ! (n mod 10)]"
        using nf by (subst stringOfNat.simps) simp
      from "1.prems" m n have a: "stringOfNat (m div 10) = stringOfNat (n div 10)"
        and b: "''0123456789'' ! (m mod 10) = ''0123456789'' ! (n mod 10)" by simp_all
      from "1.IH" [OF False a] have "m div 10 = n div 10" .
      moreover from b have "m mod 10 = n mod 10" by (intro digit_inj) simp_all
      ultimately show ?thesis by (metis div_mult_mod_eq)
    qed
  qed
qed

lemma idOf_inj: "idOf m = idOf n \<Longrightarrow> m = n"
  by (simp add: idOf_def stringOfNat_inj)

lemma idOf_mem [simp]: "idOf k \<in> idOf ` S \<longleftrightarrow> k \<in> S"
  by (auto dest: idOf_inj)

lemma freshIds_mono: "freshIds lo hi xs \<Longrightarrow> hi \<le> hi' \<Longrightarrow> freshIds lo hi' xs"
  by (auto simp: freshIds_def)

lemma freshIds_new: "freshIds lo hi xs \<Longrightarrow> idOf (Suc hi) \<notin> set xs"
proof
  assume f: "freshIds lo hi xs" and m: "idOf (Suc hi) \<in> set xs"
  then have "idOf (Suc hi) \<in> idOf ` {lo<..hi}" unfolding freshIds_def by blast
  then show False by simp
qed

lemma freshIds_insert:
  assumes "freshIds lo hi (xs @ ys)" and "lo \<le> hi"
  shows "freshIds lo (Suc hi) (xs @ idOf (Suc hi) # ys)"
proof -
  have new: "idOf (Suc hi) \<notin> set (xs @ ys)" using assms(1) by (rule freshIds_new)
  have "set (xs @ ys) \<subseteq> idOf ` {lo<..Suc hi}"
    using assms(1) unfolding freshIds_def by auto
  moreover have "idOf (Suc hi) \<in> idOf ` {lo<..Suc hi}" using assms(2) by simp
  ultimately show ?thesis
    using assms(1) new unfolding freshIds_def by auto
qed

lemma freshIds_remove: "freshIds lo hi (xs @ y # ys) \<Longrightarrow> freshIds lo hi (xs @ ys)"
  by (auto simp: freshIds_def)

lemma freshIds_append:
  assumes "freshIds lo mid xs" and "freshIds mid hi ys" and "lo \<le> mid" and "mid \<le> hi"
  shows "freshIds lo hi (xs @ ys)"
proof -
  have "set xs \<inter> set ys = {}"
  proof (rule ccontr)
    assume "set xs \<inter> set ys \<noteq> {}"
    then obtain x where x: "x \<in> set xs" "x \<in> set ys" by blast
    from x(1) assms(1) obtain k where k: "x = idOf k" "k \<in> {lo<..mid}"
      unfolding freshIds_def by blast
    from x(2) assms(2) have "x \<in> idOf ` {mid<..hi}" unfolding freshIds_def by blast
    with k show False by simp
  qed
  moreover have "idOf ` {lo<..mid} \<subseteq> idOf ` {lo<..hi}" "idOf ` {mid<..hi} \<subseteq> idOf ` {lo<..hi}"
    using assms(3,4) by auto
  ultimately show ?thesis
    using assms(1,2) unfolding freshIds_def by auto
qed

lemma freshIds_Nil: "freshIds lo hi []"
  by (simp add: freshIds_def)

lemma idsOf_simps [simp]:
  "idsOf [] = []"
  "idsOf (b # bs) = boxIds b @ idsOf bs"
  "idsOf (xs @ ys) = idsOf xs @ idsOf ys"
  by (simp_all add: idsOf_def)

lemma boxIds_unfold: "boxIds b = boxId b # idsOf (children b)"
  by (cases b) (simp add: boxIds_def [abs_def] idsOf_def map_concat comp_def)

lemma boxIds_setChildren [simp]: "boxIds (setChildren b cs) = boxId b # idsOf cs"
  by (cases b) (simp add: boxIds_def [abs_def] idsOf_def map_concat comp_def)

lemma children_setChildren [simp]: "children (setChildren b cs) = cs"
  by (cases b) simp

lemma boxId_setChildren [simp]: "boxId (setChildren b cs) = boxId b"
  by (cases b) simp

lemma createAnonymousBlockBox_id:
  "createAnonymousBlockBox c = (b, c') \<Longrightarrow> c' = Suc c \<and> boxId b = idOf (Suc c) \<and> children b = []"
  by (auto simp: createAnonymousBlockBox_def generateId_def idOf_def)

lemma createAnonymousInlineBox_id:
  "createAnonymousInlineBox t r c = (b, c') \<Longrightarrow> c' = Suc c \<and> boxId b = idOf (Suc c) \<and> children b = []"
  by (auto simp: createAnonymousInlineBox_def generateId_def idOf_def)

lemma createTextBox_id:
  "createTextBox pdt t r c = (b, c') \<Longrightarrow> c' = Suc c \<and> boxId b = idOf (Suc c) \<and> children b = []"
  by (auto simp: createTextBox_def createAnonymousInlineBox_def createAnonymousFlexItem_def
        createAnonymousGridItem_def generateId_def idOf_def split: option.splits if_splits)

lemma createBoxFromElement_id:
  "createBoxFromElement el d pb pdt c = (b, c') \<Longrightarrow> c' = Suc c \<and> boxId b = idOf (Suc c) \<and> children b = []"
  by (auto simp: createBoxFromElement_def generateId_def idOf_def Let_def)

lemma createBodyBox_id:
  "createBodyBox el c = (b, c') \<Longrightarrow> c' = Suc c \<and> boxId b = idOf (Suc c) \<and> children b = []"
  by (auto simp: createBodyBox_def generateId_def idOf_def)

lemma closeRun_fresh:
  assumes "closeRun result cur c = (res, c')"
    and "freshIds c0 c (idsOf result @ idsOf cur @ rest)" and "c0 \<le> c"
  shows "c \<le> c' \<and> freshIds c0 c' (idsOf res @ rest)"
proof (cases "cur = []")
  case True
  with assms show ?thesis by (simp add: closeRun_def)
next
  case False
  obtain ab c1 where ab: "createAnonymousBlockBox c = (ab, c1)" by (cases "createAnonymousBlockBox c")
  from createAnonymousBlockBox_id [OF ab] have c1: "c1 = Suc c" and i: "boxId ab = idOf (Suc c)" by simp_all
  from False assms(1) ab have res: "res = result @ [setChildren ab cur]" and c': "c' = c1"
    by (simp_all add: closeRun_def)
  from freshIds_insert [OF assms(2,3)]
  show ?thesis by (simp add: res c' c1 i)
qed

lemma mergeNested_fresh:
  "mergeNested nbs result cur c = (res, cur', c') \<Longrightarrow>
   freshIds c0 c (idsOf result @ idsOf cur @ idsOf nbs) \<Longrightarrow> c0 \<le> c \<Longrightarrow>
   c \<le> c' \<and> freshIds c0 c' (idsOf res @ idsOf cur')"
proof (induction nbs arbitrary: result cur c)
  case Nil
  then show ?case by simp
next
  case (Cons nb nbs)
  show ?case
  proof (cases "boxType nb = AnonymousBlock")
    case True
    with Cons.prems(1) have m: "mergeNested nbs result (cur @ children nb) c = (res, cur', c')" by simp
    from Cons.prems(2) have "freshIds c0 c ((idsOf result @ idsOf cur) @ boxId nb # (idsOf (children nb) @ idsOf nbs))"
      by (simp add: boxIds_unfold [of nb])
    from freshIds_remove [OF this]
    have "freshIds c0 c (idsOf result @ idsOf (cur @ children nb) @ idsOf nbs)" by simp
    from Cons.IH [OF m this Cons.prems(3)] show ?thesis .
  next
    case False
    obtain result1 c1 where cr: "closeRun result cur c = (result1, c1)" by (cases "closeRun result cur c")
    with False Cons.prems(1) have m: "mergeNested nbs (result1 @ [nb]) [] c1 = (res, cur', c')" by simp
    from closeRun_fresh [OF cr, of c0 "idsOf (nb # nbs)"] Cons.prems(2,3)
    have c1: "c \<le> c1" and f: "freshIds c0 c1 (idsOf result1 @ idsOf (nb # nbs))" by simp_all
    from f have "freshIds c0 c1 (idsOf (result1 @ [nb]) @ idsOf [] @ idsOf nbs)" by simp
    from Cons.IH [OF m this] c1 Cons.prems(3) show ?thesis by simp
  qed
qed

lemma wrapLoop_fresh:
  "wrapLoop cs result cur c = (res, c') \<Longrightarrow>
   freshIds c0 c (idsOf result @ idsOf (optList cur) @ idsOf cs) \<Longrightarrow> c0 \<le> c \<Longrightarrow>
   c \<le> c' \<and> freshIds c0 c' (idsOf res)"
proof (induction cs arbitrary: result cur c)
  case Nil
  then show ?case by (cases cur) auto
next
  case (Cons child cs)
  show ?case
  proof (cases "isInlineBoxType (boxType child)")
    case True
    show ?thesis
    proof (cases cur)
      case None
      obtain ab c1 where ab: "createAnonymousBlockBox c = (ab, c1)" by (cases "createAnonymousBlockBox c")
      from createAnonymousBlockBox_id [OF ab]
      have c1: "c1 = Suc c" and i: "boxId ab = idOf (Suc c)" and k: "children ab = []" by simp_all
      from True None ab Cons.prems(1)
      have w: "wrapLoop cs result (Some (setChildren ab (children ab @ [child]))) c1 = (res, c')" by simp
      from Cons.prems(2) None have "freshIds c0 c (idsOf result @ (boxIds child @ idsOf cs))" by simp
      from freshIds_insert [OF this Cons.prems(3)]
      have "freshIds c0 c1 (idsOf result @ idsOf (optList (Some (setChildren ab (children ab @ [child])))) @ idsOf cs)"
        by (simp add: c1 i k)
      from Cons.IH [OF w this] c1 Cons.prems(3) show ?thesis by simp
    next
      case (Some ab)
      from True Some Cons.prems(1)
      have w: "wrapLoop cs result (Some (setChildren ab (children ab @ [child]))) c = (res, c')" by simp
      from Cons.prems(2) Some
      have "freshIds c0 c (idsOf result @ idsOf (optList (Some (setChildren ab (children ab @ [child])))) @ idsOf cs)"
        by (simp add: boxIds_unfold [of ab])
      from Cons.IH [OF w this Cons.prems(3)] show ?thesis .
    qed
  next
    case False
    show ?thesis
    proof (cases cur)
      case None
      from False None Cons.prems(1) have w: "wrapLoop cs (result @ [child]) None c = (res, c')"
        by (simp split: if_splits)
      from Cons.prems(2) None have "freshIds c0 c (idsOf (result @ [child]) @ idsOf (optList None) @ idsOf cs)"
        by simp
      from Cons.IH [OF w this Cons.prems(3)] show ?thesis .
    next
      case (Some ab)
      from False Some Cons.prems(1) have w: "wrapLoop cs (result @ [ab, child]) None c = (res, c')"
        by (simp split: if_splits)
      from Cons.prems(2) Some have "freshIds c0 c (idsOf (result @ [ab, child]) @ idsOf (optList None) @ idsOf cs)"
        by simp
      from Cons.IH [OF w this Cons.prems(3)] show ?thesis .
    qed
  qed
qed

lemma wrapPass_fresh:
  assumes "wrapPass pdt (cs, c) = (res, c')" and "freshIds c0 c (idsOf cs)" and "c0 \<le> c"
  shows "c \<le> c' \<and> freshIds c0 c' (idsOf res)"
proof (cases "res = cs \<and> c' = c")
  case True
  with assms show ?thesis by simp
next
  case False
  with assms(1) have "wrapLoop cs [] None c = (res, c')"
    by (auto simp: wrapPass_def wrapInlineInAnonymousBlocks_def split: if_splits)
  from wrapLoop_fresh [OF this, of c0] assms(2,3) show ?thesis by simp
qed

lemma fresh_main:
  "\<forall>res c'. processChildren el pdt pbt c = (res, c') \<longrightarrow> c \<le> c' \<and> freshIds c c' (idsOf res)"
  "\<forall>c0 res c'. processChildrenLoop pdt pbt ns acc c = (res, c') \<longrightarrow> freshIds c0 c (idsOf acc) \<longrightarrow> c0 \<le> c
      \<longrightarrow> c \<le> c' \<and> freshIds c0 c' (idsOf res)"
  "\<forall>res c'. processInlineWithBlockChildren el idt pb c = (res, c') \<longrightarrow> c \<le> c' \<and> freshIds c c' (idsOf res)"
  "\<forall>c0 res cur' c'. splitLoop idt pb ns result cur c = (res, cur', c') \<longrightarrow>
      freshIds c0 c (idsOf result @ idsOf cur) \<longrightarrow> c0 \<le> c
      \<longrightarrow> c \<le> c' \<and> freshIds c0 c' (idsOf res @ idsOf cur')"
proof (induction el pdt pbt c and pdt pbt ns acc c and el idt pb c and idt pb ns result cur c
       rule: generator_induct)
  case (pc_element r t ats kids pdt pbt c)
  show ?case
  proof (intro allI impI)
    fix res c' assume a: "processChildren (Element r t ats kids) pdt pbt c = (res, c')"
    obtain cs c1 where l: "processChildrenLoop pdt pbt kids [] c = (cs, c1)"
      by (cases "processChildrenLoop pdt pbt kids [] c")
    from pc_element [rule_format, OF l, of c] have "c \<le> c1 \<and> freshIds c c1 (idsOf cs)"
      by (simp add: freshIds_Nil)
    moreover from a l have "wrapPass pdt (cs, c1) = (res, c')" by simp
    ultimately show "c \<le> c' \<and> freshIds c c' (idsOf res)"
      using wrapPass_fresh [of pdt cs c1 res c' c] by auto
  qed
next
  case (pc_text r s pdt pbt c)
  show ?case by (auto simp: wrapPass_def freshIds_Nil)
next
  case (pc_other r pdt pbt c)
  show ?case by (auto simp: wrapPass_def freshIds_Nil)
next
  case (loop_nil pdt pbt acc c)
  show ?case by simp
next
  case (loop_skip pdt pbt n ns acc c)
  then show ?case by simp
next
  case (loop_text pdt pbt r tx ns acc c b c1)
  from createTextBox_id [OF loop_text(2)]
  have c1: "c1 = Suc c" and i: "boxIds b = [idOf (Suc c)]" by (simp_all add: boxIds_unfold [of b])
  show ?case
  proof (intro allI impI)
    fix c0 res c'
    assume a: "processChildrenLoop pdt pbt (Text r tx # ns) acc c = (res, c')"
      and f: "freshIds c0 c (idsOf acc)" and le: "c0 \<le> c"
    from freshIds_insert [of c0 c "idsOf acc" "[]"] f le
    have "freshIds c0 c1 (idsOf (acc @ [b]))" by (simp add: c1 i)
    with loop_text(4) [rule_format, of res c' c0] a loop_text(3) le c1
    show "c \<le> c' \<and> freshIds c0 c' (idsOf res)" by simp
  qed
next
  case (loop_contents pdt pbt r t ats kids ns acc c cc c1)
  from loop_contents(4) [rule_format, OF loop_contents(2)]
  have c1: "c \<le> c1" and fc: "freshIds c c1 (idsOf cc)" by simp_all
  show ?case
  proof (intro allI impI)
    fix c0 res c'
    assume a: "processChildrenLoop pdt pbt (Element r t ats kids # ns) acc c = (res, c')"
      and f: "freshIds c0 c (idsOf acc)" and le: "c0 \<le> c"
    from freshIds_append [OF f fc le c1] have "freshIds c0 c1 (idsOf (acc @ cc))" by simp
    with loop_contents(5) [rule_format, of res c' c0] a loop_contents(3) le c1
    show "c \<le> c' \<and> freshIds c0 c' (idsOf res)" by simp
  qed
next
  case (loop_split pdt pbt r t ats kids ns acc c d sb c1)
  from loop_split(8) [rule_format, OF loop_split(6)]
  have c1: "c \<le> c1" and fc: "freshIds c c1 (idsOf sb)" by simp_all
  show ?case
  proof (intro allI impI)
    fix c0 res c'
    assume a: "processChildrenLoop pdt pbt (Element r t ats kids # ns) acc c = (res, c')"
      and f: "freshIds c0 c (idsOf acc)" and le: "c0 \<le> c"
    from freshIds_append [OF f fc le c1] have "freshIds c0 c1 (idsOf (acc @ sb))" by simp
    with loop_split(9) [rule_format, of res c' c0] a loop_split(7) le c1
    show "c \<le> c' \<and> freshIds c0 c' (idsOf res)" by simp
  qed
next
  case (loop_normal pdt pbt r t ats kids ns acc c d box c1 cs c2)
  from createBoxFromElement_id [OF loop_normal(4)]
  have c1: "c1 = Suc c" and i: "boxId box = idOf (Suc c)" by simp_all
  from loop_normal(7) [rule_format, OF loop_normal(5)]
  have c2: "c1 \<le> c2" and fc: "freshIds c1 c2 (idsOf cs)" by simp_all
  show ?case
  proof (intro allI impI)
    fix c0 res c'
    assume a: "processChildrenLoop pdt pbt (Element r t ats kids # ns) acc c = (res, c')"
      and f: "freshIds c0 c (idsOf acc)" and le: "c0 \<le> c"
    from freshIds_insert [of c0 c "idsOf acc" "[]"] f le
    have "freshIds c0 c1 (idsOf acc @ [idOf (Suc c)])" by (simp add: c1)
    from freshIds_append [OF this fc] le c1 c2
    have "freshIds c0 c2 (idsOf (acc @ [setChildren box cs]))" by (simp add: i)
    with loop_normal(8) [rule_format, of res c' c0] a loop_normal(6) le c1 c2
    show "c \<le> c' \<and> freshIds c0 c' (idsOf res)" by simp
  qed
next
  case (split_element r t ats kids idt pb c)
  show ?case
  proof (intro allI impI)
    fix res c'
    assume a: "processInlineWithBlockChildren (Element r t ats kids) idt pb c = (res, c')"
    obtain result cur c1 where l: "splitLoop idt pb kids [] [] c = (result, cur, c1)"
      by (cases "splitLoop idt pb kids [] [] c") auto
    from split_element [rule_format, OF l, of c]
    have "c \<le> c1 \<and> freshIds c c1 (idsOf result @ idsOf cur)" by (simp add: freshIds_Nil)
    moreover from a l have "closeRun result cur c1 = (res, c')" by simp
    ultimately show "c \<le> c' \<and> freshIds c c' (idsOf res)"
      using closeRun_fresh [of result cur c1 res c' c "[]"] by auto
  qed
next
  case (split_text r s idt pb c)
  show ?case by (simp add: freshIds_Nil)
next
  case (split_other r idt pb c)
  show ?case by (simp add: freshIds_Nil)
next
  case (sl_nil idt pb result cur c)
  show ?case by simp
next
  case (sl_skip idt pb n ns result cur c)
  then show ?case by simp
next
  case (sl_text idt pb r tx ns result cur c b c1)
  from createAnonymousInlineBox_id [OF sl_text(2)]
  have c1: "c1 = Suc c" and i: "boxIds b = [idOf (Suc c)]" by (simp_all add: boxIds_unfold [of b])
  show ?case
  proof (intro allI impI)
    fix c0 res cur' c'
    assume a: "splitLoop idt pb (Text r tx # ns) result cur c = (res, cur', c')"
      and f: "freshIds c0 c (idsOf result @ idsOf cur)" and le: "c0 \<le> c"
    from freshIds_insert [of c0 c "idsOf result @ idsOf cur" "[]"] f le
    have "freshIds c0 c1 (idsOf result @ idsOf (cur @ [b]))" by (simp add: c1 i)
    with sl_text(4) [rule_format, of res cur' c' c0] a sl_text(3) le c1
    show "c \<le> c' \<and> freshIds c0 c' (idsOf res @ idsOf cur')" by simp
  qed
next
  case (sl_contents idt pb r t ats kids ns result cur c cc c1)
  from sl_contents(4) [rule_format, OF sl_contents(2)]
  have c1: "c \<le> c1" and fc: "freshIds c c1 (idsOf cc)" by simp_all
  show ?case
  proof (intro allI impI)
    fix c0 res cur' c'
    assume a: "splitLoop idt pb (Element r t ats kids # ns) result cur c = (res, cur', c')"
      and f: "freshIds c0 c (idsOf result @ idsOf cur)" and le: "c0 \<le> c"
    from freshIds_append [OF f fc le c1]
    have "freshIds c0 c1 (idsOf result @ idsOf (cur @ cc))" by simp
    with sl_contents(5) [rule_format, of res cur' c' c0] a sl_contents(3) le c1
    show "c \<le> c' \<and> freshIds c0 c' (idsOf res @ idsOf cur')" by simp
  qed
next
  case (sl_block idt pb r t ats kids ns result cur c d result1 c1 bb c2 cs c3)
  from createBoxFromElement_id [OF sl_block(6)]
  have c2: "c2 = Suc c1" and i: "boxId bb = idOf (Suc c1)" by simp_all
  from sl_block(9) [rule_format, OF sl_block(7)]
  have c3: "c2 \<le> c3" and fc: "freshIds c2 c3 (idsOf cs)" by simp_all
  show ?case
  proof (intro allI impI)
    fix c0 res cur' c'
    assume a: "splitLoop idt pb (Element r t ats kids # ns) result cur c = (res, cur', c')"
      and f: "freshIds c0 c (idsOf result @ idsOf cur)" and le: "c0 \<le> c"
    from closeRun_fresh [OF sl_block(5), of c0 "[]"] f le
    have c1: "c \<le> c1" and f1: "freshIds c0 c1 (idsOf result1)" by simp_all
    from freshIds_insert [of c0 c1 "idsOf result1" "[]"] f1 le c1
    have "freshIds c0 c2 (idsOf result1 @ [idOf (Suc c1)])" by (simp add: c2)
    from freshIds_append [OF this fc] le c1 c2 c3
    have "freshIds c0 c3 (idsOf (result1 @ [setChildren bb cs]) @ idsOf [])" by (simp add: i)
    with sl_block(10) [rule_format, of res cur' c' c0] a sl_block(8) le c1 c2 c3
    show "c \<le> c' \<and> freshIds c0 c' (idsOf res @ idsOf cur')" by simp
  qed
next
  case (sl_nested idt pb r t ats kids ns result cur c d nested c1 result1 cur1 c2)
  from sl_nested(10) [rule_format, OF sl_nested(7)]
  have c1: "c \<le> c1" and fc: "freshIds c c1 (idsOf nested)" by simp_all
  show ?case
  proof (intro allI impI)
    fix c0 res cur' c'
    assume a: "splitLoop idt pb (Element r t ats kids # ns) result cur c = (res, cur', c')"
      and f: "freshIds c0 c (idsOf result @ idsOf cur)" and le: "c0 \<le> c"
    from freshIds_append [OF f fc le c1]
    have "freshIds c0 c1 (idsOf result @ idsOf cur @ idsOf nested)" by simp
    from mergeNested_fresh [OF sl_nested(8) this] le c1
    have c2: "c1 \<le> c2" and f2: "freshIds c0 c2 (idsOf result1 @ idsOf cur1)" by simp_all
    with sl_nested(11) [rule_format, of res cur' c' c0] a sl_nested(9) le c1
    show "c \<le> c' \<and> freshIds c0 c' (idsOf res @ idsOf cur')" by simp
  qed
next
  case (sl_inline idt pb r t ats kids ns result cur c d ib c1 cs c2)
  from createBoxFromElement_id [OF sl_inline(5)]
  have c1: "c1 = Suc c" and i: "boxId ib = idOf (Suc c)" by simp_all
  from sl_inline(8) [rule_format, OF sl_inline(6)]
  have c2: "c1 \<le> c2" and fc: "freshIds c1 c2 (idsOf cs)" by simp_all
  show ?case
  proof (intro allI impI)
    fix c0 res cur' c'
    assume a: "splitLoop idt pb (Element r t ats kids # ns) result cur c = (res, cur', c')"
      and f: "freshIds c0 c (idsOf result @ idsOf cur)" and le: "c0 \<le> c"
    from freshIds_insert [of c0 c "idsOf result @ idsOf cur" "[]"] f le
    have "freshIds c0 c1 (idsOf result @ idsOf cur @ [idOf (Suc c)])" by (simp add: c1)
    from freshIds_append [OF this fc] le c1 c2
    have "freshIds c0 c2 (idsOf result @ idsOf (cur @ [setChildren ib cs]))" by (simp add: i)
    with sl_inline(9) [rule_format, of res cur' c' c0] a sl_inline(7) le c1 c2
    show "c \<le> c' \<and> freshIds c0 c' (idsOf res @ idsOf cur')" by simp
  qed
qed

lemma nodeIdCounter_finish: "nodeIdCounter (finish b r) = snd r"
  by (simp add: finish_def split: prod.splits)

lemma root_fresh:
  assumes "boxId rb = idOf (Suc c)" and "c1 = Suc c"
    and "processChildren el pdt pbt c1 = (cs, c2)"
  shows "c \<le> c2 \<and> freshIds c c2 (boxIds (setChildren rb cs)) \<and>
         boxId (setChildren rb cs) = idOf (Suc c)"
proof -
  from fresh_main(1) [rule_format, OF assms(3)]
  have c2: "c1 \<le> c2" and fc: "freshIds c1 c2 (idsOf cs)" by simp_all
  from freshIds_insert [of c c "[]" "[]"] have "freshIds c c1 [idOf (Suc c)]"
    by (simp add: freshIds_Nil assms(2))
  from freshIds_append [OF this fc] assms(2) c2
  show ?thesis by (simp add: assms(1))
qed

lemma bodyRoot_fresh:
  assumes "bodyRoot b c = (root, c')"
  shows "c \<le> c' \<and> freshIds c c' (boxIds root) \<and> boxId root = idOf (Suc c)"
proof -
  obtain rb c1 where rb: "createBodyBox b c = (rb, c1)" by (cases "createBodyBox b c")
  obtain cs c2 where p: "processChildren b (Some Block) (Some BoxBlock) c1 = (cs, c2)"
    by (cases "processChildren b (Some Block) (Some BoxBlock) c1")
  from assms rb p have r: "root = setChildren rb cs" "c' = c2" by (simp_all add: bodyRoot_def)
  from createBodyBox_id [OF rb] root_fresh [OF _ _ p, of rb c] show ?thesis
    unfolding r by simp
qed

lemma generateFromBody_fresh:
  assumes "tree (generateFromBody b c) = Some root"
  shows "freshIds c (nodeIdCounter (generateFromBody b c)) (boxIds root) \<and>
         boxId root = idOf (Suc c)"
proof -
  let ?single = "\<lambda>x. case createBoxFromElement x (getComputedDisplayType x) False None c of
       (root, c1) \<Rightarrow>
         (case processChildren x (Some (getComputedDisplayType x)) (Some (boxType root)) c1
          of (cs, c2) \<Rightarrow> (setChildren root cs, c2))"
  have single: "freshIds c (snd (?single x)) (boxIds (fst (?single x))) \<and>
                boxId (fst (?single x)) = idOf (Suc c)" for x
  proof -
    obtain rb c1 where rb: "createBoxFromElement x (getComputedDisplayType x) False None c = (rb, c1)"
      by (cases "createBoxFromElement x (getComputedDisplayType x) False None c")
    obtain cs c2 where p:
      "processChildren x (Some (getComputedDisplayType x)) (Some (boxType rb)) c1 = (cs, c2)"
      by (cases "processChildren x (Some (getComputedDisplayType x)) (Some (boxType rb)) c1")
    from createBoxFromElement_id [OF rb] have c1: "c1 = Suc c" and i: "boxId rb = idOf (Suc c)"
      by simp_all
    from root_fresh [OF i c1 p] show ?thesis
      by (auto simp: rb [unfolded c1] p [unfolded c1])
  qed
  have body: "freshIds c (snd (bodyRoot b c)) (boxIds (fst (bodyRoot b c))) \<and>
              boxId (fst (bodyRoot b c)) = idOf (Suc c)"
    using bodyRoot_fresh [of b c "fst (bodyRoot b c)" "snd (bodyRoot b c)"] by simp
  from assms show ?thesis
    by (auto simp: generateFromBody_def tree_finish nodeIdCounter_finish Let_def single body
             split: list.splits if_splits)
qed

text \<open>
  C8. The ids of the boxes of a returned tree are pairwise distinct. They are counter values
  in creation order: the root, created first, is \<open>box-1\<close>, and every id is \<open>box-k\<close>
  for a \<open>k\<close> between 1 and the number of boxes created in the call.
\<close>

theorem box_ids_distinct:
  assumes "tree (generateBoxTree domParser html counter0) = Some root"
  shows "distinct (boxIds root)
         \<and> boxId root = ''box-1''
         \<and> set (boxIds root) \<subseteq> idOf ` {0<..nodeIdCounter (generateBoxTree domParser html counter0)}"
proof -
  from assms obtain b where t: "tree (generateFromBody b 0) = Some root"
    and g: "generateBoxTree domParser html counter0 = generateFromBody b 0"
    by (auto simp: generateBoxTree_def split: sum.splits option.splits)
  have one: "idOf (Suc 0) = ''box-1''" by (simp add: idOf_def stringOfNat.simps)
  from generateFromBody_fresh [OF t] show ?thesis
    by (simp add: g freshIds_def one)
qed

theorem box_ids_distinct_witness:
  "distinct (boxIds scenarioBTree)
   \<and> boxId scenarioBTree = ''box-1''
   \<and> set (boxIds scenarioBTree) \<subseteq>
       idOf ` {0<..nodeIdCounter (generateBoxTree (constParser (htmlDocument scenarioBBody)) scenarioBHtml 0)}"
proof -
  have h: "tree (generateBoxTree (constParser (htmlDocument scenarioBBody)) scenarioBHtml 0) =
           Some scenarioBTree"
    by code_simp
  show ?thesis by (rule box_ids_distinct [OF h])
qed

subsection \<open>Containment\<close>

lemma blockKind_source: "blockLevelOrAnonymousBlock bt = isBlockLevelBoxType bt"
  by (auto simp: blockLevelOrAnonymousBlock_def isBlockLevelBoxType_def)

lemma inlineKind_source: "inlineLevelOrAnonymousInline bt = isInlineBoxType bt"
  by (auto simp: inlineLevelOrAnonymousInline_def isInlineBoxType_def)

lemma containmentHolds_setChildren:
  "containmentHolds (setChildren b cs) =
     ((case displayType b of
         Some k \<Rightarrow> (if isBlockContainer k \<and> \<not> blockifiesChildren k then homogeneous cs else True)
       | None \<Rightarrow> True)
      \<and> list_all containmentHolds cs)"
  by (cases b) simp

lemma containmentHolds_children: "containmentHolds b \<Longrightarrow> list_all containmentHolds (children b)"
  by (cases b) simp

lemma boxType_setChildren [simp]: "boxType (setChildren b cs) = boxType b"
  by (cases b) simp

lemma displayType_setChildren [simp]: "displayType (setChildren b cs) = displayType b"
  by (cases b) simp

lemma eitherKind_setChildren [simp]: "eitherKind (setChildren b cs) = eitherKind b"
  by (simp add: eitherKind_def)

lemma createAnonymousBlockBox_kind:
  "createAnonymousBlockBox c = (b, c') \<Longrightarrow>
     boxType b = AnonymousBlock \<and> displayType b = None \<and> children b = []"
  by (auto simp: createAnonymousBlockBox_def generateId_def)

lemma createAnonymousInlineBox_kind:
  "createAnonymousInlineBox t r c = (b, c') \<Longrightarrow>
     boxType b = AnonymousInline \<and> displayType b = None \<and> children b = []"
  by (auto simp: createAnonymousInlineBox_def generateId_def)

lemma createTextBox_kind:
  "createTextBox pdt t r c = (b, c') \<Longrightarrow>
     displayType b = None \<and> children b = [] \<and>
     (\<not> parentBlockifiesOf pdt \<longrightarrow> boxType b = AnonymousInline)"
  by (auto simp: createTextBox_def createAnonymousInlineBox_def createAnonymousFlexItem_def
        createAnonymousGridItem_def generateId_def parentBlockifiesOf_def
        split: option.splits if_splits)

lemma getBoxTypeFromDisplay_kind:
  "blockLevelOrAnonymousBlock (getBoxTypeFromDisplay d l) \<or>
   inlineLevelOrAnonymousInline (getBoxTypeFromDisplay d l)"
  by (cases d)
     (simp_all add: getBoxTypeFromDisplay_def blockLevelOrAnonymousBlock_def
        inlineLevelOrAnonymousInline_def)

lemma createBoxFromElement_kind:
  assumes "createBoxFromElement el d pb pdt c = (b, c')"
  shows "displayType b = Some d \<and> children b = [] \<and>
         (\<not> pb \<or> pdt = None \<longrightarrow> eitherKind b)"
proof -
  have "\<not> pb \<or> pdt = None \<Longrightarrow> boxType b = getBoxTypeFromDisplay d (d = ListItem)"
    using assms
    by (cases pdt) (auto simp: createBoxFromElement_def generateId_def Let_def)
  moreover have "displayType b = Some d \<and> children b = []"
    using assms by (auto simp: createBoxFromElement_def generateId_def Let_def)
  ultimately show ?thesis
    using getBoxTypeFromDisplay_kind [of d "d = ListItem"] by (auto simp: eitherKind_def)
qed

lemma containmentHolds_leaf:
  "children b = [] \<Longrightarrow> containmentHolds b"
  by (cases b) (auto simp: homogeneous_def split: option.splits)

lemma containmentHolds_anonymous:
  "displayType b = None \<Longrightarrow> list_all containmentHolds cs \<Longrightarrow> containmentHolds (setChildren b cs)"
  by (simp add: containmentHolds_setChildren)

lemma closeRun_containment:
  assumes "closeRun result cur c = (res, c')"
    and "list_all containmentHolds result" and "list_all containmentHolds cur"
    and "list_all eitherKind result"
  shows "list_all containmentHolds res \<and> list_all eitherKind res"
proof (cases "cur = []")
  case True
  with assms show ?thesis by (simp add: closeRun_def)
next
  case False
  obtain ab c1 where ab: "createAnonymousBlockBox c = (ab, c1)"
    by (cases "createAnonymousBlockBox c")
  from False assms(1) ab have res: "res = result @ [setChildren ab cur]"
    by (simp add: closeRun_def)
  from createAnonymousBlockBox_kind [OF ab] assms(2-4) show ?thesis
    by (simp add: res containmentHolds_anonymous eitherKind_def blockLevelOrAnonymousBlock_def)
qed

lemma mergeNested_containment:
  "mergeNested nbs result cur c = (res, cur', c') \<Longrightarrow>
   list_all containmentHolds nbs \<Longrightarrow> list_all eitherKind nbs \<Longrightarrow>
   list_all containmentHolds result \<Longrightarrow> list_all containmentHolds cur \<Longrightarrow>
   list_all eitherKind result \<Longrightarrow>
   list_all containmentHolds res \<and> list_all containmentHolds cur' \<and> list_all eitherKind res"
proof (induction nbs arbitrary: result cur c)
  case Nil
  then show ?case by simp
next
  case (Cons nb nbs)
  show ?case
  proof (cases "boxType nb = AnonymousBlock")
    case True
    with Cons.prems(1) have m: "mergeNested nbs result (cur @ children nb) c = (res, cur', c')"
      by simp
    from Cons.prems(2,5) have "list_all containmentHolds (cur @ children nb)"
      by (simp add: containmentHolds_children)
    from Cons.IH [OF m _ _ Cons.prems(4) this Cons.prems(6)] Cons.prems(2,3)
    show ?thesis by simp
  next
    case False
    obtain result1 c1 where cr: "closeRun result cur c = (result1, c1)"
      by (cases "closeRun result cur c")
    with False Cons.prems(1) have m: "mergeNested nbs (result1 @ [nb]) [] c1 = (res, cur', c')"
      by simp
    from closeRun_containment [OF cr Cons.prems(4,5,6)] Cons.prems(2,3)
    have "list_all containmentHolds (result1 @ [nb])" and "list_all eitherKind (result1 @ [nb])"
      by simp_all
    from Cons.IH [OF m _ _ this(1) _ this(2)] Cons.prems(2,3) show ?thesis by simp
  qed
qed

lemma wrapLoop_containment:
  "wrapLoop cs result cur c = (res, c') \<Longrightarrow>
   list_all containmentHolds cs \<Longrightarrow> list_all eitherKind cs \<Longrightarrow>
   list_all containmentHolds result \<Longrightarrow>
   list_all (\<lambda>b. blockLevelOrAnonymousBlock (boxType b)) result \<Longrightarrow>
   list_all (\<lambda>ab. boxType ab = AnonymousBlock \<and> displayType ab = None \<and> containmentHolds ab)
     (optList cur) \<Longrightarrow>
   list_all containmentHolds res \<and> list_all (\<lambda>b. blockLevelOrAnonymousBlock (boxType b)) res"
proof (induction cs arbitrary: result cur c)
  case Nil
  then show ?case by (cases cur) (auto simp: blockLevelOrAnonymousBlock_def)
next
  case (Cons child cs)
  from Cons.prems(2,3) have ch: "containmentHolds child" and rest: "list_all containmentHolds cs"
    and ek: "eitherKind child" and restk: "list_all eitherKind cs" by simp_all
  show ?case
  proof (cases "isInlineBoxType (boxType child)")
    case True
    show ?thesis
    proof (cases cur)
      case None
      obtain ab c1 where ab: "createAnonymousBlockBox c = (ab, c1)"
        by (cases "createAnonymousBlockBox c")
      from True None ab Cons.prems(1)
      have w: "wrapLoop cs result (Some (setChildren ab (children ab @ [child]))) c1 = (res, c')"
        by simp
      from createAnonymousBlockBox_kind [OF ab] ch
      have "list_all (\<lambda>ab. boxType ab = AnonymousBlock \<and> displayType ab = None \<and> containmentHolds ab)
              (optList (Some (setChildren ab (children ab @ [child]))))"
        by (simp add: containmentHolds_anonymous)
      from Cons.IH [OF w rest restk Cons.prems(4,5) this] show ?thesis .
    next
      case (Some ab)
      from True Some Cons.prems(1)
      have w: "wrapLoop cs result (Some (setChildren ab (children ab @ [child]))) c = (res, c')"
        by simp
      from Some Cons.prems(6) ch
      have "list_all (\<lambda>ab. boxType ab = AnonymousBlock \<and> displayType ab = None \<and> containmentHolds ab)
              (optList (Some (setChildren ab (children ab @ [child]))))"
        by (simp add: containmentHolds_anonymous containmentHolds_children)
      from Cons.IH [OF w rest restk Cons.prems(4,5) this] show ?thesis .
    qed
  next
    case False
    with ek have bk: "blockLevelOrAnonymousBlock (boxType child)"
      by (simp add: eitherKind_def inlineKind_source)
    show ?thesis
    proof (cases cur)
      case None
      from False None Cons.prems(1) have w: "wrapLoop cs (result @ [child]) None c = (res, c')"
        by (simp split: if_splits)
      from Cons.IH [OF w rest restk] Cons.prems(4,5) ch bk show ?thesis by simp
    next
      case (Some ab)
      from False Some Cons.prems(1) have w: "wrapLoop cs (result @ [ab, child]) None c = (res, c')"
        by (simp split: if_splits)
      from Some Cons.prems(6) have "containmentHolds ab" "blockLevelOrAnonymousBlock (boxType ab)"
        by (simp_all add: blockLevelOrAnonymousBlock_def)
      with Cons.IH [OF w rest restk] Cons.prems(4,5) ch bk show ?thesis by simp
    qed
  qed
qed

lemma blockKind_eitherKind:
  "list_all (\<lambda>b. blockLevelOrAnonymousBlock (boxType b)) bs \<Longrightarrow> list_all eitherKind bs"
  by (induction bs) (simp_all add: eitherKind_def)

lemma no_block_all_inline:
  "list_all eitherKind bs \<Longrightarrow> \<not> list_ex (\<lambda>b. isBlockLevelBoxType (boxType b)) bs \<Longrightarrow>
   list_all (\<lambda>b. inlineLevelOrAnonymousInline (boxType b)) bs"
  by (induction bs) (auto simp: eitherKind_def blockKind_source)

lemma wrapPass_containment:
  assumes "wrapPass pdt (cs, c) = (res, c')"
    and "list_all containmentHolds cs" and "list_all eitherKind cs"
  shows "list_all containmentHolds res \<and> list_all eitherKind res \<and>
         (isParentBlockContainerOf pdt \<and> \<not> parentBlockifiesOf pdt \<longrightarrow> homogeneous res)"
proof (cases "isParentBlockContainerOf pdt \<and> \<not> parentBlockifiesOf pdt")
  case False
  with assms show ?thesis by (auto simp: wrapPass_def)
next
  case True
  show ?thesis
  proof (cases "list_ex (\<lambda>child. isBlockLevelBoxType (boxType child)) cs")
    case False
    with True assms(1) have "res = cs" by (auto simp: wrapPass_def)
    with assms(2,3) no_block_all_inline [OF assms(3) False] show ?thesis
      by (simp add: homogeneous_def)
  next
    case ex: True
    with True assms(1) have "wrapLoop cs [] None c = (res, c')"
      by (auto simp: wrapPass_def wrapInlineInAnonymousBlocks_def)
    from wrapLoop_containment [OF this assms(2,3)] show ?thesis
      by (simp add: homogeneous_def blockKind_eitherKind)
  qed
qed

lemma containment_main:
  "\<forall>res c'. processChildren el pdt pbt c = (res, c') \<longrightarrow>
     list_all containmentHolds res \<and>
     (\<not> parentBlockifiesOf pdt \<longrightarrow>
        list_all eitherKind res \<and> (isParentBlockContainerOf pdt \<longrightarrow> homogeneous res))"
  "\<forall>res c'. processChildrenLoop pdt pbt ns acc c = (res, c') \<longrightarrow> list_all containmentHolds acc \<longrightarrow>
     list_all containmentHolds res \<and>
     (\<not> parentBlockifiesOf pdt \<longrightarrow> list_all eitherKind acc \<longrightarrow> list_all eitherKind res)"
  "\<forall>res c'. processInlineWithBlockChildren el idt pb c = (res, c') \<longrightarrow>
     list_all containmentHolds res \<and> list_all eitherKind res"
  "\<forall>res cur' c'. splitLoop idt pb ns result cur c = (res, cur', c') \<longrightarrow>
     list_all containmentHolds result \<longrightarrow> list_all containmentHolds cur \<longrightarrow>
     list_all eitherKind result \<longrightarrow>
     list_all containmentHolds res \<and> list_all containmentHolds cur' \<and> list_all eitherKind res"
proof (induction el pdt pbt c and pdt pbt ns acc c and el idt pb c and idt pb ns result cur c
       rule: generator_induct)
  case (pc_element r t ats kids pdt pbt c)
  show ?case
  proof (intro allI impI)
    fix res c' assume a: "processChildren (Element r t ats kids) pdt pbt c = (res, c')"
    obtain cs c1 where l: "processChildrenLoop pdt pbt kids [] c = (cs, c1)"
      by (cases "processChildrenLoop pdt pbt kids [] c")
    from pc_element [rule_format, OF l]
    have k: "list_all containmentHolds cs" and e: "\<not> parentBlockifiesOf pdt \<Longrightarrow> list_all eitherKind cs"
      by simp_all
    from a l have w: "wrapPass pdt (cs, c1) = (res, c')" by simp
    show "list_all containmentHolds res \<and>
          (\<not> parentBlockifiesOf pdt \<longrightarrow>
             list_all eitherKind res \<and> (isParentBlockContainerOf pdt \<longrightarrow> homogeneous res))"
    proof (cases "parentBlockifiesOf pdt")
      case True
      with w have "res = cs" by (simp add: wrapPass_def)
      with k True show ?thesis by simp
    next
      case False
      from wrapPass_containment [OF w k e [OF False]] False show ?thesis by simp
    qed
  qed
next
  case (pc_text r s pdt pbt c)
  show ?case by (auto simp: wrapPass_def homogeneous_def)
next
  case (pc_other r pdt pbt c)
  show ?case by (auto simp: wrapPass_def homogeneous_def)
next
  case (loop_nil pdt pbt acc c)
  show ?case by simp
next
  case (loop_skip pdt pbt n ns acc c)
  then show ?case by simp
next
  case (loop_text pdt pbt r tx ns acc c b c1)
  from createTextBox_kind [OF loop_text(2)]
  have k: "containmentHolds b" and e: "\<not> parentBlockifiesOf pdt \<Longrightarrow> eitherKind b"
    by (simp_all add: containmentHolds_leaf eitherKind_def inlineLevelOrAnonymousInline_def)
  show ?case
  proof (intro allI impI conjI)
    fix res c'
    assume a: "processChildrenLoop pdt pbt (Text r tx # ns) acc c = (res, c')"
      and ka: "list_all containmentHolds acc"
    from a loop_text(3) have l: "processChildrenLoop pdt pbt ns (acc @ [b]) c1 = (res, c')" by simp
    from loop_text(4) [rule_format, OF l] ka k
    show "list_all containmentHolds res" by simp
    assume nb: "\<not> parentBlockifiesOf pdt" and ea: "list_all eitherKind acc"
    from loop_text(4) [rule_format, OF l] ka k nb ea e
    show "list_all eitherKind res" by simp
  qed
next
  case (loop_contents pdt pbt r t ats kids ns acc c cc c1)
  from loop_contents(4) [rule_format, OF loop_contents(2)]
  have k: "list_all containmentHolds cc" and e: "\<not> parentBlockifiesOf pdt \<Longrightarrow> list_all eitherKind cc"
    by simp_all
  show ?case
  proof (intro allI impI conjI)
    fix res c'
    assume a: "processChildrenLoop pdt pbt (Element r t ats kids # ns) acc c = (res, c')"
      and ka: "list_all containmentHolds acc"
    from a loop_contents(3) have l: "processChildrenLoop pdt pbt ns (acc @ cc) c1 = (res, c')"
      by simp
    from loop_contents(5) [rule_format, OF l] ka k
    show "list_all containmentHolds res" by simp
    assume nb: "\<not> parentBlockifiesOf pdt" and ea: "list_all eitherKind acc"
    from loop_contents(5) [rule_format, OF l] ka k nb ea e
    show "list_all eitherKind res" by simp
  qed
next
  case (loop_split pdt pbt r t ats kids ns acc c d sb c1)
  from loop_split(8) [rule_format, OF loop_split(6)]
  have k: "list_all containmentHolds sb" and e: "list_all eitherKind sb" by simp_all
  show ?case
  proof (intro allI impI conjI)
    fix res c'
    assume a: "processChildrenLoop pdt pbt (Element r t ats kids # ns) acc c = (res, c')"
      and ka: "list_all containmentHolds acc"
    from a loop_split(7) have l: "processChildrenLoop pdt pbt ns (acc @ sb) c1 = (res, c')"
      by simp
    from loop_split(9) [rule_format, OF l] ka k
    show "list_all containmentHolds res" by simp
    assume nb: "\<not> parentBlockifiesOf pdt" and ea: "list_all eitherKind acc"
    from loop_split(9) [rule_format, OF l] ka k nb ea e
    show "list_all eitherKind res" by simp
  qed
next
  case (loop_normal pdt pbt r t ats kids ns acc c d box c1 cs c2)
  from createBoxFromElement_kind [OF loop_normal(4)]
  have dt: "displayType box = Some d" and e: "\<not> parentBlockifiesOf pdt \<Longrightarrow> eitherKind box"
    by simp_all
  from loop_normal(7) [rule_format, OF loop_normal(5)]
  have kc: "list_all containmentHolds cs"
    and h: "\<not> blockifiesChildren d \<Longrightarrow> isBlockContainer d \<Longrightarrow> homogeneous cs"
    by (simp_all add: parentBlockifiesOf_def isParentBlockContainerOf_def)
  from dt kc h have k: "containmentHolds (setChildren box cs)"
    by (simp add: containmentHolds_setChildren)
  show ?case
  proof (intro allI impI conjI)
    fix res c'
    assume a: "processChildrenLoop pdt pbt (Element r t ats kids # ns) acc c = (res, c')"
      and ka: "list_all containmentHolds acc"
    from a loop_normal(6)
    have l: "processChildrenLoop pdt pbt ns (acc @ [setChildren box cs]) c2 = (res, c')" by simp
    from loop_normal(8) [rule_format, OF l] ka k
    show "list_all containmentHolds res" by simp
    assume nb: "\<not> parentBlockifiesOf pdt" and ea: "list_all eitherKind acc"
    from loop_normal(8) [rule_format, OF l] ka k nb ea e
    show "list_all eitherKind res" by simp
  qed
next
  case (split_element r t ats kids idt pb c)
  show ?case
  proof (intro allI impI)
    fix res c'
    assume a: "processInlineWithBlockChildren (Element r t ats kids) idt pb c = (res, c')"
    obtain result cur c1 where l: "splitLoop idt pb kids [] [] c = (result, cur, c1)"
      by (cases "splitLoop idt pb kids [] [] c") auto
    from split_element [rule_format, OF l]
    have r: "list_all containmentHolds result" "list_all containmentHolds cur"
      "list_all eitherKind result" by simp_all
    from a l have "closeRun result cur c1 = (res, c')" by simp
    from closeRun_containment [OF this r]
    show "list_all containmentHolds res \<and> list_all eitherKind res" .
  qed
next
  case (split_text r s idt pb c)
  show ?case by simp
next
  case (split_other r idt pb c)
  show ?case by simp
next
  case (sl_nil idt pb result cur c)
  show ?case by simp
next
  case (sl_skip idt pb n ns result cur c)
  then show ?case by simp
next
  case (sl_text idt pb r tx ns result cur c b c1)
  from createAnonymousInlineBox_kind [OF sl_text(2)]
  have k: "containmentHolds b" by (simp add: containmentHolds_leaf)
  show ?case
  proof (intro allI impI)
    fix res cur' c'
    assume a: "splitLoop idt pb (Text r tx # ns) result cur c = (res, cur', c')"
      and kr: "list_all containmentHolds result" and kc: "list_all containmentHolds cur"
      and er: "list_all eitherKind result"
    from a sl_text(3) have l: "splitLoop idt pb ns result (cur @ [b]) c1 = (res, cur', c')" by simp
    from sl_text(4) [rule_format, OF l kr _ er] kc k
    show "list_all containmentHolds res \<and> list_all containmentHolds cur' \<and> list_all eitherKind res"
      by simp
  qed
next
  case (sl_contents idt pb r t ats kids ns result cur c cc c1)
  from sl_contents(4) [rule_format, OF sl_contents(2)]
  have k: "list_all containmentHolds cc" by simp
  show ?case
  proof (intro allI impI)
    fix res cur' c'
    assume a: "splitLoop idt pb (Element r t ats kids # ns) result cur c = (res, cur', c')"
      and kr: "list_all containmentHolds result" and kc: "list_all containmentHolds cur"
      and er: "list_all eitherKind result"
    from a sl_contents(3) have l: "splitLoop idt pb ns result (cur @ cc) c1 = (res, cur', c')"
      by simp
    from sl_contents(5) [rule_format, OF l kr _ er] kc k
    show "list_all containmentHolds res \<and> list_all containmentHolds cur' \<and> list_all eitherKind res"
      by simp
  qed
next
  case (sl_block idt pb r t ats kids ns result cur c d result1 c1 bb c2 cs c3)
  from createBoxFromElement_kind [OF sl_block(6)]
  have dt: "displayType bb = Some d" and e: "eitherKind bb" by simp_all
  from sl_block(9) [rule_format, OF sl_block(7)]
  have kcs: "list_all containmentHolds cs"
    and h: "\<not> blockifiesChildren d \<Longrightarrow> isBlockContainer d \<Longrightarrow> homogeneous cs"
    by (simp_all add: parentBlockifiesOf_def isParentBlockContainerOf_def)
  from dt kcs h have k: "containmentHolds (setChildren bb cs)"
    by (simp add: containmentHolds_setChildren)
  show ?case
  proof (intro allI impI)
    fix res cur' c'
    assume a: "splitLoop idt pb (Element r t ats kids # ns) result cur c = (res, cur', c')"
      and kr: "list_all containmentHolds result" and kc: "list_all containmentHolds cur"
      and er: "list_all eitherKind result"
    from closeRun_containment [OF sl_block(5) kr kc er]
    have r1: "list_all containmentHolds result1" "list_all eitherKind result1" by simp_all
    from a sl_block(8)
    have l: "splitLoop idt pb ns (result1 @ [setChildren bb cs]) [] c3 = (res, cur', c')" by simp
    from sl_block(10) [rule_format, OF l] r1 k e
    show "list_all containmentHolds res \<and> list_all containmentHolds cur' \<and> list_all eitherKind res"
      by simp
  qed
next
  case (sl_nested idt pb r t ats kids ns result cur c d nested c1 result1 cur1 c2)
  from sl_nested(10) [rule_format, OF sl_nested(7)]
  have kn: "list_all containmentHolds nested" and en: "list_all eitherKind nested" by simp_all
  show ?case
  proof (intro allI impI)
    fix res cur' c'
    assume a: "splitLoop idt pb (Element r t ats kids # ns) result cur c = (res, cur', c')"
      and kr: "list_all containmentHolds result" and kc: "list_all containmentHolds cur"
      and er: "list_all eitherKind result"
    from mergeNested_containment [OF sl_nested(8) kn en kr kc er]
    have r1: "list_all containmentHolds result1" "list_all containmentHolds cur1"
      "list_all eitherKind result1" by simp_all
    from a sl_nested(9) have l: "splitLoop idt pb ns result1 cur1 c2 = (res, cur', c')" by simp
    from sl_nested(11) [rule_format, OF l r1]
    show "list_all containmentHolds res \<and> list_all containmentHolds cur' \<and> list_all eitherKind res" .
  qed
next
  case (sl_inline idt pb r t ats kids ns result cur c d ib c1 cs c2)
  from createBoxFromElement_kind [OF sl_inline(5)]
  have dt: "displayType ib = Some d" by simp
  from sl_inline(8) [rule_format, OF sl_inline(6)]
  have kcs: "list_all containmentHolds cs"
    and h: "\<not> blockifiesChildren d \<Longrightarrow> isBlockContainer d \<Longrightarrow> homogeneous cs"
    by (simp_all add: parentBlockifiesOf_def isParentBlockContainerOf_def)
  from dt kcs h have k: "containmentHolds (setChildren ib cs)"
    by (simp add: containmentHolds_setChildren)
  show ?case
  proof (intro allI impI)
    fix res cur' c'
    assume a: "splitLoop idt pb (Element r t ats kids # ns) result cur c = (res, cur', c')"
      and kr: "list_all containmentHolds result" and kc: "list_all containmentHolds cur"
      and er: "list_all eitherKind result"
    from a sl_inline(7)
    have l: "splitLoop idt pb ns result (cur @ [setChildren ib cs]) c2 = (res, cur', c')" by simp
    from sl_inline(9) [rule_format, OF l kr _ er] kc k
    show "list_all containmentHolds res \<and> list_all containmentHolds cur' \<and> list_all eitherKind res"
      by simp
  qed
qed

lemma root_containment:
  assumes "displayType rb = Some d"
    and "processChildren el (Some d) pbt c1 = (cs, c2)"
  shows "containmentHolds (setChildren rb cs)"
proof -
  from containment_main(1) [rule_format, OF assms(2)]
  have "list_all containmentHolds cs"
    and "\<not> blockifiesChildren d \<Longrightarrow> isBlockContainer d \<Longrightarrow> homogeneous cs"
    by (simp_all add: parentBlockifiesOf_def isParentBlockContainerOf_def)
  with assms(1) show ?thesis by (simp add: containmentHolds_setChildren)
qed

lemma bodyRoot_containment: "containmentHolds (fst (bodyRoot b c))"
proof -
  obtain rb c1 where rb: "createBodyBox b c = (rb, c1)" by (cases "createBodyBox b c")
  obtain cs c2 where p: "processChildren b (Some Block) (Some BoxBlock) c1 = (cs, c2)"
    by (cases "processChildren b (Some Block) (Some BoxBlock) c1")
  from rb have "displayType rb = Some Block" by (auto simp: createBodyBox_def generateId_def)
  from root_containment [OF this p] show ?thesis by (simp add: bodyRoot_def rb p)
qed

lemma generateFromBody_containment:
  assumes "tree (generateFromBody b c) = Some root"
  shows "containmentHolds root"
proof -
  let ?single = "\<lambda>x. case createBoxFromElement x (getComputedDisplayType x) False None c of
       (root, c1) \<Rightarrow>
         (case processChildren x (Some (getComputedDisplayType x)) (Some (boxType root)) c1
          of (cs, c2) \<Rightarrow> (setChildren root cs, c2))"
  have single: "containmentHolds (fst (?single x))" for x
  proof -
    obtain rb c1 where rb: "createBoxFromElement x (getComputedDisplayType x) False None c = (rb, c1)"
      by (cases "createBoxFromElement x (getComputedDisplayType x) False None c")
    obtain cs c2 where p:
      "processChildren x (Some (getComputedDisplayType x)) (Some (boxType rb)) c1 = (cs, c2)"
      by (cases "processChildren x (Some (getComputedDisplayType x)) (Some (boxType rb)) c1")
    from createBoxFromElement_kind [OF rb] have "displayType rb = Some (getComputedDisplayType x)"
      by simp
    from root_containment [OF this p] show ?thesis by (simp add: rb p)
  qed
  from assms show ?thesis
    by (auto simp: generateFromBody_def tree_finish Let_def single bodyRoot_containment
             split: list.splits if_splits)
qed

text \<open>
  C1. In a returned tree, every box whose display keyword is a block container and does not
  blockify its children has a homogeneous child list: all children are block-level or
  anonymous-block boxes, or all are inline-level or anonymous-inline boxes. This holds at
  every depth.
\<close>

theorem containment_invariant:
  assumes "tree (generateBoxTree domParser html counter0) = Some root"
  shows "containmentHolds root"
proof -
  from assms obtain b where "tree (generateFromBody b 0) = Some root"
    by (auto simp: generateBoxTree_def split: sum.splits option.splits)
  then show ?thesis by (rule generateFromBody_containment)
qed

theorem containment_invariant_witness:
  "containmentHolds scenarioATree"
proof -
  have h: "tree (generateBoxTree (constParser (htmlDocument scenarioABody))
                   ''<section><span>Foo</span><div>Bar</div>Baz</section>'' 0) =
           Some scenarioATree"
    by code_simp
  show ?thesis by (rule containment_invariant [OF h])
qed

subsection \<open>Blockification\<close>

lemma blockificationHolds_setChildren:
  "blockificationHolds (setChildren b cs) =
     ((case displayType b of
         Some p \<Rightarrow> (if blockifiesChildren p then list_all (blockifiedChild p) cs else True)
       | None \<Rightarrow> True)
      \<and> list_all blockificationHolds cs)"
  by (cases b) simp

lemma blockificationHolds_children:
  "blockificationHolds b \<Longrightarrow> list_all blockificationHolds (children b)"
  by (cases b) simp

lemma blockificationHolds_leaf: "children b = [] \<Longrightarrow> blockificationHolds b"
  by (cases b) (auto split: option.splits)

lemma element_setChildren [simp]: "element (setChildren b cs) = element b"
  by (cases b) simp

lemma textNode_setChildren [simp]: "textNode (setChildren b cs) = textNode b"
  by (cases b) simp

lemma blockifiedChild_setChildren [simp]:
  "blockifiedChild p (setChildren b cs) = blockifiedChild p b"
  by (simp add: blockifiedChild_def)

lemma blockifies_establishesBFC:
  "blockifiesChildren p \<Longrightarrow> establishesBlockFormattingContext p"
  by (auto simp: blockifiesChildren_def establishesBlockFormattingContext_def)

lemma blockifies_not_container: "blockifiesChildren p \<Longrightarrow> \<not> isBlockContainer p"
  by (auto simp: blockifiesChildren_def isBlockContainer_def)

lemma createTextBox_blockified:
  "createTextBox (Some p) t r c = (b, c') \<Longrightarrow> blockifiesChildren p \<Longrightarrow> blockifiedChild p b"
  by (auto simp: createTextBox_def createAnonymousFlexItem_def createAnonymousGridItem_def
        generateId_def blockifiedChild_def parentIsGrid_def split: if_splits)

lemma createBoxFromElement_blockified:
  "createBoxFromElement el d (parentBlockifiesOf (Some p)) (Some p) c = (b, c') \<Longrightarrow>
   blockifiesChildren p \<Longrightarrow> blockifiedChild p b"
  by (auto simp: createBoxFromElement_def generateId_def blockifiedChild_def parentIsGrid_def
        parentBlockifiesOf_def Let_def)

lemma closeRun_blockification:
  assumes "closeRun result cur c = (res, c')"
    and "list_all blockificationHolds result" and "list_all blockificationHolds cur"
  shows "list_all blockificationHolds res"
proof (cases "cur = []")
  case True
  with assms show ?thesis by (simp add: closeRun_def)
next
  case False
  obtain ab c1 where ab: "createAnonymousBlockBox c = (ab, c1)"
    by (cases "createAnonymousBlockBox c")
  from False assms(1) ab have res: "res = result @ [setChildren ab cur]"
    by (simp add: closeRun_def)
  from createAnonymousBlockBox_kind [OF ab] assms(2,3) show ?thesis
    by (simp add: res blockificationHolds_setChildren)
qed

lemma mergeNested_blockification:
  "mergeNested nbs result cur c = (res, cur', c') \<Longrightarrow>
   list_all blockificationHolds nbs \<Longrightarrow>
   list_all blockificationHolds result \<Longrightarrow> list_all blockificationHolds cur \<Longrightarrow>
   list_all blockificationHolds res \<and> list_all blockificationHolds cur'"
proof (induction nbs arbitrary: result cur c)
  case Nil
  then show ?case by simp
next
  case (Cons nb nbs)
  show ?case
  proof (cases "boxType nb = AnonymousBlock")
    case True
    with Cons.prems(1) have m: "mergeNested nbs result (cur @ children nb) c = (res, cur', c')"
      by simp
    from Cons.prems(2,4) have "list_all blockificationHolds (cur @ children nb)"
      by (simp add: blockificationHolds_children)
    from Cons.IH [OF m _ Cons.prems(3) this] Cons.prems(2) show ?thesis by simp
  next
    case False
    obtain result1 c1 where cr: "closeRun result cur c = (result1, c1)"
      by (cases "closeRun result cur c")
    with False Cons.prems(1) have m: "mergeNested nbs (result1 @ [nb]) [] c1 = (res, cur', c')"
      by simp
    from closeRun_blockification [OF cr Cons.prems(3,4)] Cons.prems(2)
    have "list_all blockificationHolds (result1 @ [nb])" by simp
    from Cons.IH [OF m _ this] Cons.prems(2) show ?thesis by simp
  qed
qed

lemma wrapLoop_blockification:
  "wrapLoop cs result cur c = (res, c') \<Longrightarrow>
   list_all blockificationHolds cs \<Longrightarrow> list_all blockificationHolds result \<Longrightarrow>
   list_all (\<lambda>ab. displayType ab = None \<and> blockificationHolds ab) (optList cur) \<Longrightarrow>
   list_all blockificationHolds res"
proof (induction cs arbitrary: result cur c)
  case Nil
  then show ?case by (cases cur) auto
next
  case (Cons child cs)
  from Cons.prems(2) have ch: "blockificationHolds child"
    and rest: "list_all blockificationHolds cs" by simp_all
  show ?case
  proof (cases "isInlineBoxType (boxType child)")
    case True
    show ?thesis
    proof (cases cur)
      case None
      obtain ab c1 where ab: "createAnonymousBlockBox c = (ab, c1)"
        by (cases "createAnonymousBlockBox c")
      from True None ab Cons.prems(1)
      have w: "wrapLoop cs result (Some (setChildren ab (children ab @ [child]))) c1 = (res, c')"
        by simp
      from createAnonymousBlockBox_kind [OF ab] ch
      have "list_all (\<lambda>ab. displayType ab = None \<and> blockificationHolds ab)
              (optList (Some (setChildren ab (children ab @ [child]))))"
        by (simp add: blockificationHolds_setChildren)
      from Cons.IH [OF w rest Cons.prems(3) this] show ?thesis .
    next
      case (Some ab)
      from True Some Cons.prems(1)
      have w: "wrapLoop cs result (Some (setChildren ab (children ab @ [child]))) c = (res, c')"
        by simp
      from Some Cons.prems(4) ch
      have "list_all (\<lambda>ab. displayType ab = None \<and> blockificationHolds ab)
              (optList (Some (setChildren ab (children ab @ [child]))))"
        by (simp add: blockificationHolds_setChildren blockificationHolds_children)
      from Cons.IH [OF w rest Cons.prems(3) this] show ?thesis .
    qed
  next
    case False
    show ?thesis
    proof (cases cur)
      case None
      from False None Cons.prems(1) have w: "wrapLoop cs (result @ [child]) None c = (res, c')"
        by (simp split: if_splits)
      from Cons.IH [OF w rest] Cons.prems(3) ch show ?thesis by simp
    next
      case (Some ab)
      from False Some Cons.prems(1) have w: "wrapLoop cs (result @ [ab, child]) None c = (res, c')"
        by (simp split: if_splits)
      from Some Cons.prems(4) have "blockificationHolds ab" by simp
      with Cons.IH [OF w rest] Cons.prems(3) ch show ?thesis by simp
    qed
  qed
qed

lemma wrapPass_blockification:
  assumes "wrapPass pdt (cs, c) = (res, c')" and "list_all blockificationHolds cs"
  shows "list_all blockificationHolds res \<and> (parentBlockifiesOf pdt \<longrightarrow> res = cs)"
proof (cases "res = cs")
  case True
  with assms show ?thesis by simp
next
  case False
  with assms(1) have w: "wrapLoop cs [] None c = (res, c')" and nb: "\<not> parentBlockifiesOf pdt"
    by (auto simp: wrapPass_def wrapInlineInAnonymousBlocks_def split: if_splits)
  from wrapLoop_blockification [OF w assms(2)] nb show ?thesis by simp
qed

lemma blockification_main:
  "\<forall>res c'. processChildren el pdt pbt c = (res, c') \<longrightarrow>
     list_all blockificationHolds res \<and>
     (\<forall>p. pdt = Some p \<and> blockifiesChildren p \<longrightarrow> list_all (blockifiedChild p) res)"
  "\<forall>res c'. processChildrenLoop pdt pbt ns acc c = (res, c') \<longrightarrow> list_all blockificationHolds acc \<longrightarrow>
     list_all blockificationHolds res \<and>
     (\<forall>p. pdt = Some p \<and> blockifiesChildren p \<longrightarrow> list_all (blockifiedChild p) acc \<longrightarrow>
          list_all (blockifiedChild p) res)"
  "\<forall>res c'. processInlineWithBlockChildren el idt pb c = (res, c') \<longrightarrow>
     list_all blockificationHolds res"
  "\<forall>res cur' c'. splitLoop idt pb ns result cur c = (res, cur', c') \<longrightarrow>
     list_all blockificationHolds result \<longrightarrow> list_all blockificationHolds cur \<longrightarrow>
     list_all blockificationHolds res \<and> list_all blockificationHolds cur'"
proof (induction el pdt pbt c and pdt pbt ns acc c and el idt pb c and idt pb ns result cur c
       rule: generator_induct)
  case (pc_element r t ats kids pdt pbt c)
  show ?case
  proof (intro allI impI)
    fix res c' assume a: "processChildren (Element r t ats kids) pdt pbt c = (res, c')"
    obtain cs c1 where l: "processChildrenLoop pdt pbt kids [] c = (cs, c1)"
      by (cases "processChildrenLoop pdt pbt kids [] c")
    from pc_element [rule_format, OF l]
    have k: "list_all blockificationHolds cs"
      and e: "\<And>p. pdt = Some p \<Longrightarrow> blockifiesChildren p \<Longrightarrow> list_all (blockifiedChild p) cs"
      by simp_all
    from a l have w: "wrapPass pdt (cs, c1) = (res, c')" by simp
    from wrapPass_blockification [OF w k] e
    show "list_all blockificationHolds res \<and>
          (\<forall>p. pdt = Some p \<and> blockifiesChildren p \<longrightarrow> list_all (blockifiedChild p) res)"
      by (auto simp: parentBlockifiesOf_def)
  qed
next
  case (pc_text r s pdt pbt c)
  show ?case by (auto simp: wrapPass_def)
next
  case (pc_other r pdt pbt c)
  show ?case by (auto simp: wrapPass_def)
next
  case (loop_nil pdt pbt acc c)
  show ?case by simp
next
  case (loop_skip pdt pbt n ns acc c)
  show ?case unfolding loop_skip(1) by (rule loop_skip(2))
next
  case (loop_text pdt pbt r tx ns acc c b c1)
  from createTextBox_kind [OF loop_text(2)]
  have k: "blockificationHolds b" by (simp add: blockificationHolds_leaf)
  have e: "blockifiedChild p b" if "pdt = Some p" "blockifiesChildren p" for p
    using createTextBox_blockified [of p tx r c b c1] loop_text(2) that by simp
  show ?case
  proof (intro allI impI conjI)
    fix res c'
    assume a: "processChildrenLoop pdt pbt (Text r tx # ns) acc c = (res, c')"
      and ka: "list_all blockificationHolds acc"
    from a loop_text(3) have l: "processChildrenLoop pdt pbt ns (acc @ [b]) c1 = (res, c')" by simp
    from loop_text(4) [rule_format, OF l] ka k
    show "list_all blockificationHolds res" by simp
    fix p assume p: "pdt = Some p \<and> blockifiesChildren p" and ea: "list_all (blockifiedChild p) acc"
    from loop_text(4) [rule_format, OF l] ka k p ea e [of p]
    show "list_all (blockifiedChild p) res" by simp
  qed
next
  case (loop_contents pdt pbt r t ats kids ns acc c cc c1)
  from loop_contents(4) [rule_format, OF loop_contents(2)]
  have k: "list_all blockificationHolds cc"
    and e: "\<And>p. pdt = Some p \<Longrightarrow> blockifiesChildren p \<Longrightarrow> list_all (blockifiedChild p) cc"
    by simp_all
  show ?case
  proof (intro allI impI conjI)
    fix res c'
    assume a: "processChildrenLoop pdt pbt (Element r t ats kids # ns) acc c = (res, c')"
      and ka: "list_all blockificationHolds acc"
    from a loop_contents(3) have l: "processChildrenLoop pdt pbt ns (acc @ cc) c1 = (res, c')"
      by simp
    from loop_contents(5) [rule_format, OF l] ka k
    show "list_all blockificationHolds res" by simp
    fix p assume p: "pdt = Some p \<and> blockifiesChildren p" and ea: "list_all (blockifiedChild p) acc"
    from loop_contents(5) [rule_format, OF l] ka k p ea e [of p]
    show "list_all (blockifiedChild p) res" by simp
  qed
next
  case (loop_split pdt pbt r t ats kids ns acc c d sb c1)
  from loop_split(8) [rule_format, OF loop_split(6)]
  have k: "list_all blockificationHolds sb" by simp
  have no: "\<not> (pdt = Some p \<and> blockifiesChildren p)" for p
    using loop_split(3) blockifies_establishesBFC [of p] by (auto simp: parentEstablishesBFCOf_def)
  show ?case
  proof (intro allI impI conjI)
    fix res c'
    assume a: "processChildrenLoop pdt pbt (Element r t ats kids # ns) acc c = (res, c')"
      and ka: "list_all blockificationHolds acc"
    from a loop_split(7) have l: "processChildrenLoop pdt pbt ns (acc @ sb) c1 = (res, c')"
      by simp
    from loop_split(9) [rule_format, OF l] ka k
    show "list_all blockificationHolds res" by simp
    fix p assume p: "pdt = Some p \<and> blockifiesChildren p"
    with no [of p] show "list_all (blockifiedChild p) res" by simp
  qed
next
  case (loop_normal pdt pbt r t ats kids ns acc c d box c1 cs c2)
  from createBoxFromElement_kind [OF loop_normal(4)]
  have dt: "displayType box = Some d" by simp
  from loop_normal(7) [rule_format, OF loop_normal(5)]
  have kc: "list_all blockificationHolds cs"
    and h: "blockifiesChildren d \<Longrightarrow> list_all (blockifiedChild d) cs"
    by simp_all
  from dt kc h have k: "blockificationHolds (setChildren box cs)"
    by (simp add: blockificationHolds_setChildren)
  have e: "blockifiedChild p box" if "pdt = Some p" "blockifiesChildren p" for p
    using createBoxFromElement_blockified [of "Element r t ats kids" d p c box c1]
      loop_normal(4) that by simp
  show ?case
  proof (intro allI impI conjI)
    fix res c'
    assume a: "processChildrenLoop pdt pbt (Element r t ats kids # ns) acc c = (res, c')"
      and ka: "list_all blockificationHolds acc"
    from a loop_normal(6)
    have l: "processChildrenLoop pdt pbt ns (acc @ [setChildren box cs]) c2 = (res, c')" by simp
    from loop_normal(8) [rule_format, OF l] ka k
    show "list_all blockificationHolds res" by simp
    fix p assume p: "pdt = Some p \<and> blockifiesChildren p" and ea: "list_all (blockifiedChild p) acc"
    from loop_normal(8) [rule_format, OF l] ka k p ea e [of p]
    show "list_all (blockifiedChild p) res" by simp
  qed
next
  case (split_element r t ats kids idt pb c)
  show ?case
  proof (intro allI impI)
    fix res c'
    assume a: "processInlineWithBlockChildren (Element r t ats kids) idt pb c = (res, c')"
    obtain result cur c1 where l: "splitLoop idt pb kids [] [] c = (result, cur, c1)"
      by (cases "splitLoop idt pb kids [] [] c") auto
    from split_element [rule_format, OF l]
    have r: "list_all blockificationHolds result" "list_all blockificationHolds cur" by simp_all
    from a l have "closeRun result cur c1 = (res, c')" by simp
    from closeRun_blockification [OF this r] show "list_all blockificationHolds res" .
  qed
next
  case (split_text r s idt pb c)
  show ?case by simp
next
  case (split_other r idt pb c)
  show ?case by simp
next
  case (sl_nil idt pb result cur c)
  show ?case by simp
next
  case (sl_skip idt pb n ns result cur c)
  show ?case unfolding sl_skip(1) by (rule sl_skip(2))
next
  case (sl_text idt pb r tx ns result cur c b c1)
  from createAnonymousInlineBox_kind [OF sl_text(2)]
  have k: "blockificationHolds b" by (simp add: blockificationHolds_leaf)
  show ?case
  proof (intro allI impI)
    fix res cur' c'
    assume a: "splitLoop idt pb (Text r tx # ns) result cur c = (res, cur', c')"
      and kr: "list_all blockificationHolds result" and kc: "list_all blockificationHolds cur"
    from a sl_text(3) have l: "splitLoop idt pb ns result (cur @ [b]) c1 = (res, cur', c')" by simp
    from sl_text(4) [rule_format, OF l kr] kc k
    show "list_all blockificationHolds res \<and> list_all blockificationHolds cur'" by simp
  qed
next
  case (sl_contents idt pb r t ats kids ns result cur c cc c1)
  from sl_contents(4) [rule_format, OF sl_contents(2)]
  have k: "list_all blockificationHolds cc" by simp
  show ?case
  proof (intro allI impI)
    fix res cur' c'
    assume a: "splitLoop idt pb (Element r t ats kids # ns) result cur c = (res, cur', c')"
      and kr: "list_all blockificationHolds result" and kc: "list_all blockificationHolds cur"
    from a sl_contents(3) have l: "splitLoop idt pb ns result (cur @ cc) c1 = (res, cur', c')"
      by simp
    from sl_contents(5) [rule_format, OF l kr] kc k
    show "list_all blockificationHolds res \<and> list_all blockificationHolds cur'" by simp
  qed
next
  case (sl_block idt pb r t ats kids ns result cur c d result1 c1 bb c2 cs c3)
  from createBoxFromElement_kind [OF sl_block(6)]
  have dt: "displayType bb = Some d" by simp
  from sl_block(9) [rule_format, OF sl_block(7)]
  have kcs: "list_all blockificationHolds cs"
    and h: "blockifiesChildren d \<Longrightarrow> list_all (blockifiedChild d) cs"
    by simp_all
  from dt kcs h have k: "blockificationHolds (setChildren bb cs)"
    by (simp add: blockificationHolds_setChildren)
  show ?case
  proof (intro allI impI)
    fix res cur' c'
    assume a: "splitLoop idt pb (Element r t ats kids # ns) result cur c = (res, cur', c')"
      and kr: "list_all blockificationHolds result" and kc: "list_all blockificationHolds cur"
    from closeRun_blockification [OF sl_block(5) kr kc]
    have r1: "list_all blockificationHolds result1" .
    from a sl_block(8)
    have l: "splitLoop idt pb ns (result1 @ [setChildren bb cs]) [] c3 = (res, cur', c')" by simp
    from sl_block(10) [rule_format, OF l] r1 k
    show "list_all blockificationHolds res \<and> list_all blockificationHolds cur'" by simp
  qed
next
  case (sl_nested idt pb r t ats kids ns result cur c d nested c1 result1 cur1 c2)
  from sl_nested(10) [rule_format, OF sl_nested(7)]
  have kn: "list_all blockificationHolds nested" by simp
  show ?case
  proof (intro allI impI)
    fix res cur' c'
    assume a: "splitLoop idt pb (Element r t ats kids # ns) result cur c = (res, cur', c')"
      and kr: "list_all blockificationHolds result" and kc: "list_all blockificationHolds cur"
    from mergeNested_blockification [OF sl_nested(8) kn kr kc]
    have r1: "list_all blockificationHolds result1" "list_all blockificationHolds cur1"
      by simp_all
    from a sl_nested(9) have l: "splitLoop idt pb ns result1 cur1 c2 = (res, cur', c')" by simp
    from sl_nested(11) [rule_format, OF l r1]
    show "list_all blockificationHolds res \<and> list_all blockificationHolds cur'" .
  qed
next
  case (sl_inline idt pb r t ats kids ns result cur c d ib c1 cs c2)
  from createBoxFromElement_kind [OF sl_inline(5)]
  have dt: "displayType ib = Some d" by simp
  from sl_inline(8) [rule_format, OF sl_inline(6)]
  have kcs: "list_all blockificationHolds cs"
    and h: "blockifiesChildren d \<Longrightarrow> list_all (blockifiedChild d) cs"
    by simp_all
  from dt kcs h have k: "blockificationHolds (setChildren ib cs)"
    by (simp add: blockificationHolds_setChildren)
  show ?case
  proof (intro allI impI)
    fix res cur' c'
    assume a: "splitLoop idt pb (Element r t ats kids # ns) result cur c = (res, cur', c')"
      and kr: "list_all blockificationHolds result" and kc: "list_all blockificationHolds cur"
    from a sl_inline(7)
    have l: "splitLoop idt pb ns result (cur @ [setChildren ib cs]) c2 = (res, cur', c')" by simp
    from sl_inline(9) [rule_format, OF l kr] kc k
    show "list_all blockificationHolds res \<and> list_all blockificationHolds cur'" by simp
  qed
qed

lemma root_blockification:
  assumes "displayType rb = Some d"
    and "processChildren el (Some d) pbt c1 = (cs, c2)"
  shows "blockificationHolds (setChildren rb cs)"
proof -
  from blockification_main(1) [rule_format, OF assms(2)]
  have "list_all blockificationHolds cs"
    and "blockifiesChildren d \<Longrightarrow> list_all (blockifiedChild d) cs"
    by simp_all
  with assms(1) show ?thesis by (simp add: blockificationHolds_setChildren)
qed

lemma bodyRoot_blockification: "blockificationHolds (fst (bodyRoot b c))"
proof -
  obtain rb c1 where rb: "createBodyBox b c = (rb, c1)" by (cases "createBodyBox b c")
  obtain cs c2 where p: "processChildren b (Some Block) (Some BoxBlock) c1 = (cs, c2)"
    by (cases "processChildren b (Some Block) (Some BoxBlock) c1")
  from rb have "displayType rb = Some Block" by (auto simp: createBodyBox_def generateId_def)
  from root_blockification [OF this p] show ?thesis by (simp add: bodyRoot_def rb p)
qed

lemma generateFromBody_blockification:
  assumes "tree (generateFromBody b c) = Some root"
  shows "blockificationHolds root"
proof -
  let ?single = "\<lambda>x. case createBoxFromElement x (getComputedDisplayType x) False None c of
       (root, c1) \<Rightarrow>
         (case processChildren x (Some (getComputedDisplayType x)) (Some (boxType root)) c1
          of (cs, c2) \<Rightarrow> (setChildren root cs, c2))"
  have single: "blockificationHolds (fst (?single x))" for x
  proof -
    obtain rb c1 where rb: "createBoxFromElement x (getComputedDisplayType x) False None c = (rb, c1)"
      by (cases "createBoxFromElement x (getComputedDisplayType x) False None c")
    obtain cs c2 where p:
      "processChildren x (Some (getComputedDisplayType x)) (Some (boxType rb)) c1 = (cs, c2)"
      by (cases "processChildren x (Some (getComputedDisplayType x)) (Some (boxType rb)) c1")
    from createBoxFromElement_kind [OF rb] have "displayType rb = Some (getComputedDisplayType x)"
      by simp
    from root_blockification [OF this p] show ?thesis by (simp add: rb p)
  qed
  from assms show ?thesis
    by (auto simp: generateFromBody_def tree_finish Let_def single bodyRoot_blockification
             split: list.splits if_splits)
qed

text \<open>
  C4 (as the code has it). In a returned tree, under every box whose display keyword
  blockifies, each child made for an element is a \<open>flex-item\<close> (parent \<open>flex\<close> or
  \<open>inline-flex\<close>) or a \<open>grid-item\<close> (parent \<open>grid\<close> or \<open>inline-grid\<close>), whatever
  the element's own display keyword is, \<open>list-item\<close> included.
\<close>

theorem blockification_invariant:
  assumes "tree (generateBoxTree domParser html counter0) = Some root"
  shows "blockificationHolds root"
proof -
  from assms obtain b where "tree (generateFromBody b 0) = Some root"
    by (auto simp: generateBoxTree_def split: sum.splits option.splits)
  then show ?thesis by (rule generateFromBody_blockification)
qed

theorem blockification_invariant_witness:
  "blockificationHolds flexListTree"
proof -
  have h: "tree (generateBoxTree (constParser (htmlDocument flexListBody))
                   ''<div style=display:flex><li>y</li></div>'' 0) = Some flexListTree"
    by code_simp
  show ?thesis by (rule blockification_invariant [OF h])
qed

subsection \<open>Exceptions inside the try block\<close>

lemma generateFromBody_selectRoot:
  "generateFromBody b c =
     (case selectRoot b c of
        None \<Rightarrow> \<lparr>tree = None, elementMap = emptyElementMap, bodyAfter = Some b,
                 nodeIdCounter = c\<rparr>
      | Some r \<Rightarrow> finish b r)"
  by (simp add: generateFromBody_def selectRoot_def Let_def split: list.splits)


lemma buildElementMapTry_Inr:
  "buildElementMapTry rt box s = Inr s' \<Longrightarrow> s' = buildElementMap box s"
  "buildChildrenTry rt bs s = Inr s' \<Longrightarrow> s' = fold buildElementMap bs s"
proof (induction rt box s and rt bs s arbitrary: s' and s' rule: buildElementMapTry_buildChildrenTry.induct)
  case (1 rt i bt d e tc tg cl st ch an em tn m src)
  then show ?case
    by (cases e; cases tn) (auto split: if_splits)
next
  case (2 rt s)
  then show ?case by simp
next
  case (3 rt child rest s)
  then show ?case by (auto split: sum.splits)
qed



lemma generatorThrows_quiet [simp]: "generatorThrows quietRuntime b = False"
  by (simp add: quietRuntime_def)


lemma catching_tree_agrees:
  assumes "generateBoxTreeCatching rt domParser html = Inr ret" and "returnedTree ret = Some root"
  shows "tree (generateBoxTree domParser html counter0) = Some root
         \<and> elementMap (generateBoxTree domParser html counter0) = returnedMap ret
         \<and> bodyAfter (generateBoxTree domParser html counter0) = sourceAfter ret"
proof -
  from assms obtain doc b c fin where
    p: "parseHTML domParser html = Inr doc" and g: "getBodyElement doc = Some b" and
    sr: "selectRoot b 0 = Some (root, c)" and
    t: "buildElementMapTry rt root (emptyElementMap, b) = Inr fin" and
    ret: "ret = \<lparr>returnedTree = Some root, returnedMap = fst fin, sourceAfter = Some (snd fin)\<rparr>"
    by (auto simp: generateBoxTreeCatching_def tryCatch_def tryBlock_def
          split: sum.splits option.splits prod.splits if_splits)
  from buildElementMapTry_Inr(1) [OF t] have "fin = buildElementMap root (emptyElementMap, b)" .
  with p g sr ret show ?thesis
    by (simp add: generateBoxTree_def generateFromBody_selectRoot finish_def split: prod.splits)
qed





subsection \<open>Source elements of the boxes\<close>

lemma map_filter_concat:
  "List.map_filter f (concat xss) = concat (map (List.map_filter f) xss)"
  by (induction xss) (simp_all add: List.map_filter_def)

lemma elementTags_unfold:
  "elementTags (BoxNode i bt d e tc tg cl st ch an em tn) =
     (case e of Some r \<Rightarrow> [(r, i)] | None \<Rightarrow> []) @ concat (map elementTags ch)"
proof -
  let ?f = "\<lambda>bx. map_option (\<lambda>r. (r, boxId bx)) (element bx)"
  have "elementTags (BoxNode i bt d e tc tg cl st ch an em tn) =
        List.map_filter ?f (BoxNode i bt d e tc tg cl st ch an em tn # concat (map boxesOf ch))"
    by (simp add: elementTags_def)
  also have "\<dots> = (case e of Some r \<Rightarrow> [(r, i)] | None \<Rightarrow> []) @
                   List.map_filter ?f (concat (map boxesOf ch))"
    by (cases e) (simp_all add: List.map_filter_simps)
  also have "List.map_filter ?f (concat (map boxesOf ch)) = concat (map elementTags ch)"
    by (simp add: map_filter_concat elementTags_def [abs_def] comp_def)
  finally show ?thesis .
qed

lemma sourceElements_tags: "sourceElements b = map fst (elementTags b)"
proof -
  have "List.map_filter element bs =
        map fst (List.map_filter (\<lambda>bx. map_option (\<lambda>r. (r, boxId bx)) (element bx)) bs)" for bs
    by (induction bs) (auto simp: List.map_filter_def)
  then show ?thesis by (simp add: sourceElements_def elementTags_def)
qed





lemma srcsOf_simps [simp]:
  "srcsOf [] = []"
  "srcsOf (b # bs) = sourceElements b @ srcsOf bs"
  "srcsOf (xs @ ys) = srcsOf xs @ srcsOf ys"
  by (simp_all add: srcsOf_def)

lemma refsOf_simps [simp]:
  "refsOf [] = []"
  "refsOf (Element r t ats kids # ns) = r # refsOf kids @ refsOf ns"
  "refsOf (Text r s # ns) = refsOf ns"
  "refsOf (OtherNode r # ns) = refsOf ns"
  by (simp_all add: refsOf_def elementRefs_def [abs_def] map_concat comp_def)

lemma sourceElements_unfold:
  "sourceElements b = (case element b of Some r \<Rightarrow> [r] | None \<Rightarrow> []) @ srcsOf (children b)"
  by (cases b; cases "element b")
     (simp_all add: sourceElements_tags [abs_def] elementTags_unfold srcsOf_def map_concat comp_def)

lemma sourceElements_setChildren [simp]:
  "sourceElements (setChildren b cs) =
     (case element b of Some r \<Rightarrow> [r] | None \<Rightarrow> []) @ srcsOf cs"
  by (simp add: sourceElements_unfold [of "setChildren b cs"])






lemma within_remove: "within A (xs @ y # ys) \<Longrightarrow> within A (xs @ ys)"
  by (auto simp: within_def)






lemma elementRefs_Element [simp]: "elementRefs (Element r t ats kids) = r # refsOf kids"
proof -
  have "elementRefs n = refsOf [n]" for n by (simp add: refsOf_def)
  then show ?thesis by simp
qed










end
